theory Spec2Isabelle
  imports Main "HOL-Library.Sublist"
begin

text \<open>
  A shallow embedding of the query composition engine of ML Export Wizard
  (\<open>ml_export_wizard/utils/exporter.py\<close>): the merge of SQL fragments, the field catalog
  and its lookup, column rendering by query layer, formula resolution, query requests and
  their cursor, the literal path of the extra-column resolver, the construction and
  compilation of rollups, and the join traversal of an app's models.  Exceptions are values
  of the type \<open>error\<close>; the state a function changes is passed in and returned.  The
  definitions come first, then example inputs, then the properties.
\<close>

section \<open>Python values and strings\<close>

text \<open>
  The values that settings dictionaries, query requests and parameter maps carry:
  \<open>None\<close>, booleans, integers, strings, lists and dictionaries.  A dictionary is an
  association list in insertion order with unique keys.  Floats are not modelled.
\<close>

datatype pyval =
    PNone
  | PBool bool
  | PInt int
  | PStr string
  | PList "pyval list"
  | PDict "(string \<times> pyval) list"

text \<open>Python truthiness (\<open>bool(v)\<close>, as tested by \<open>if v\<close>, \<open>not v\<close> and \<open>filter(None, ...)\<close>).\<close>

fun truthy :: "pyval \<Rightarrow> bool" where
  "truthy PNone = False"
| "truthy (PBool b) = b"
| "truthy (PInt i) = (i \<noteq> 0)"
| "truthy (PStr s) = (s \<noteq> [])"
| "truthy (PList xs) = (xs \<noteq> [])"
| "truthy (PDict kvs) = (kvs \<noteq> [])"

text \<open>
  The exceptions.  \<open>MLExportWizardFieldNotFound\<close> carries one of three messages: the
  field is not in the exporter, the name is ambiguous, or no field name was given.
\<close>

datatype lookup_failure = NotInExporter | Ambiguous | Undefined

datatype error =
    FieldNotFound lookup_failure
  | ExporterNotFound
  | QueryExecuting
  | QueryNotExecuted
  | ImproperlyConfigured
  | KeyError
  | TypeError
  | ValueError
  | AttributeError
  | DatabaseError

text \<open>\<open>sep.join(xs)\<close>\<close>

fun join :: "string \<Rightarrow> string list \<Rightarrow> string" where
  "join sep [] = []"
| "join sep [x] = x"
| "join sep (x # y # ys) = x @ sep @ join sep (y # ys)"

text \<open>\<open>filter(None, xs)\<close> on strings keeps the non-empty ones.\<close>

definition filter_none :: "string list \<Rightarrow> string list" where
  "filter_none xs = filter (\<lambda>s. s \<noteq> []) xs"

section \<open>SQL fragments and \<open>merge_sql_dicts\<close>\<close>

text \<open>
  An SQL dictionary: the text-valued keys (\<open>select\<close>, \<open>from\<close>, ...) and the
  \<open>parameters\<close> key, whose value is a name-to-value map.  \<open>None\<close> in
  \<open>parameters\<close> means the key is absent.
\<close>

record sql_dict =
  clauses :: "string \<rightharpoonup> string"
  parameters :: "(string \<rightharpoonup> pyval) option"

definition empty_sql_dict :: sql_dict where
  "empty_sql_dict = \<lparr>clauses = Map.empty, parameters = None\<rparr>"

definition mergers :: "(string \<times> string) list" where
  "mergers =
     [(''select'', '', ''),
      (''select_no_table'', '', ''),
      (''from'', '' ''),
      (''where'', '' AND ''),
      (''group_by'', '', ''),
      (''having'', '' AND '')]"

text \<open>One iteration of the loop over \<open>mergers.items()\<close>.\<close>

fun merge_clause :: "sql_dict \<Rightarrow> sql_dict \<Rightarrow> (string \<rightharpoonup> string) \<Rightarrow> string \<times> string \<Rightarrow> (string \<rightharpoonup> string)" where
  "merge_clause dict1 dict2 merged (key, val) =
     (case (clauses dict1 key, clauses dict2 key) of
        (None, None) \<Rightarrow> merged(key \<mapsto> [])
      | (Some v1, None) \<Rightarrow> merged(key \<mapsto> v1)
      | (None, Some v2) \<Rightarrow> merged(key \<mapsto> v2)
      | (Some v1, Some v2) \<Rightarrow> merged(key \<mapsto> join val (filter_none [v1, v2])))"

definition merge_parameters :: "sql_dict \<Rightarrow> sql_dict \<Rightarrow> (string \<rightharpoonup> pyval)" where
  "merge_parameters dict1 dict2 =
     (case (parameters dict1, parameters dict2) of
        (None, None) \<Rightarrow> Map.empty
      | (Some p1, None) \<Rightarrow> p1
      | (None, Some p2) \<Rightarrow> p2
      | (Some p1, Some p2) \<Rightarrow> p1 ++ p2)"

definition merge_sql_dicts :: "sql_dict option \<Rightarrow> sql_dict option \<Rightarrow> sql_dict option" where
  "merge_sql_dicts dict1 dict2 =
     (case (dict1, dict2) of
        (None, None) \<Rightarrow> None
      | (Some d1, None) \<Rightarrow> Some d1
      | (None, Some d2) \<Rightarrow> Some d2
      | (Some d1, Some d2) \<Rightarrow>
          Some \<lparr>clauses = foldl (merge_clause d1 d2) Map.empty mergers,
                parameters = Some (merge_parameters d1 d2)\<rparr>)"

text \<open>
  The reading of the merge rule: the values an operand contributes to a clause, and the
  parameters it contributes.
\<close>

definition clause_values :: "sql_dict \<Rightarrow> string \<Rightarrow> string list" where
  "clause_values d key = (case clauses d key of None \<Rightarrow> [] | Some v \<Rightarrow> [v])"

definition parameters_of :: "sql_dict \<Rightarrow> (string \<rightharpoonup> pyval)" where
  "parameters_of d = (case parameters d of None \<Rightarrow> Map.empty | Some p \<Rightarrow> p)"

section \<open>Strings: \<open>count\<close>, \<open>split\<close>, \<open>replace\<close> and the quoted-token scan\<close>

definition dot :: char where
  "dot = CHR ''.''"

definition dq :: char where
  "dq = CHR 0x22"

definition sq :: char where
  "sq = CHR 0x27"

definition newline :: char where
  "newline = CHR 0x0A"

text \<open>\<open>s.count(c)\<close> for a one-character \<open>c\<close>.\<close>

definition count_char :: "char \<Rightarrow> string \<Rightarrow> nat" where
  "count_char c s = length (filter (\<lambda>x. x = c) s)"

text \<open>\<open>s.split(c)\<close> for a one-character separator.\<close>

fun split_on :: "char \<Rightarrow> string \<Rightarrow> string list" where
  "split_on c [] = [[]]"
| "split_on c (x # xs) =
     (if x = c then [] # split_on c xs
      else (case split_on c xs of p # ps \<Rightarrow> (x # p) # ps | [] \<Rightarrow> [[x]]))"

text \<open>
  \<open>s.replace(old, new)\<close>: the occurrences of \<open>old\<close> are found from the left and do not
  overlap; with an empty \<open>old\<close>, \<open>new\<close> is put before every character and at the end.
\<close>

function str_replace :: "string \<Rightarrow> string \<Rightarrow> string \<Rightarrow> string" where
  "str_replace old new s =
     (if old = [] then new @ concat (map (\<lambda>c. c # new) s)
      else if s = [] then []
      else if prefix old s then new @ str_replace old new (drop (length old) s)
      else hd s # str_replace old new (tl s))"
  by pat_completeness auto
termination
  by (relation "measure (\<lambda>(old, new, s). length s)") auto

declare str_replace.simps [simp del]

text \<open>
  \<open>re.finditer('".*?"', s)\<close>: the matches, left to right.  A match runs from a double quote
  to the next double quote when no newline lies between (\<open>.\<close> does not match a newline);
  the scan goes on after the closing quote.  The state is the text read since a candidate
  opening quote, or \<open>None\<close> outside a candidate.
\<close>

fun quoted_tokens :: "string option \<Rightarrow> string \<Rightarrow> string list" where
  "quoted_tokens st [] = []"
| "quoted_tokens None (c # cs) =
     (if c = dq then quoted_tokens (Some []) cs else quoted_tokens None cs)"
| "quoted_tokens (Some acc) (c # cs) =
     (if c = dq then (dq # acc @ [dq]) # quoted_tokens None cs
      else if c = newline then quoted_tokens None cs
      else quoted_tokens (Some (acc @ [c])) cs)"

definition finditer_quoted :: "string \<Rightarrow> string list" where
  "finditer_quoted s = quoted_tokens None s"

text \<open>Truthiness of an optional string argument (\<open>None\<close> and \<open>""\<close> are falsy).\<close>

definition given :: "string option \<Rightarrow> bool" where
  "given s = (case s of None \<Rightarrow> False | Some v \<Rightarrow> v \<noteq> [])"

section \<open>The field catalog\<close>

text \<open>
  What the schema provider tells about the Django field behind an \<open>ExporterField\<close>: its
  class, its \<open>column\<close> and \<open>name_of\<close> attributes (\<open>None\<close> when the descriptor has no
  such attribute) and the name of the related model of a relationship field.
\<close>

datatype field_class =
    ManyToOneRel | ForeignKey | OneToOneRel | ManyToManyField | ManyToManyRel | PlainField

record descriptor =
  field_class :: field_class
  column_attr :: "string option"
  field_name_attr :: "string option"
  related_model :: string

text \<open>
  \<open>ExporterField\<close> carries its name, the table of its parent (\<open>self.parent.table\<close>), its
  \<open>join_only\<close> setting and the descriptor; \<open>ExporterPseudofield\<close> only a name.
\<close>

datatype field =
    ExporterField string string bool descriptor
  | ExporterPseudofield string

fun name_of :: "field \<Rightarrow> string" where
  "name_of (ExporterField n t jo d) = n"
| "name_of (ExporterPseudofield n) = n"

text \<open>\<open>ExporterField.column\<close> and \<open>ExporterPseudofield.column\<close>.\<close>

fun column :: "field \<Rightarrow> string option \<Rightarrow> string" where
  "column (ExporterField n table jo d) query_layer =
     (let column = (case column_attr d of
                      Some c \<Rightarrow> c
                    | None \<Rightarrow> (case field_name_attr d of Some c \<Rightarrow> c | None \<Rightarrow> []))
      in if query_layer = Some ''base'' then table @ ''.'' @ column
         else if query_layer = Some ''inner'' then column @ '' AS '' @ table @ ''_'' @ column
         else if query_layer = Some ''middle'' then table @ ''_'' @ column
         else if query_layer = Some ''outer'' then table @ ''_'' @ column @ '' as '' @ column
         else column)"
| "column (ExporterPseudofield n) query_layer = n"

record model =
  m_name :: string
  m_table :: string
  m_fields :: "field list"
  m_dont_link_to :: "string list option"

record app =
  a_name :: string
  a_models :: "model list"
  a_primary_model :: "string option"

text \<open>
  A filter of \<open>where_before_join\<close> is a dictionary; \<open>where_before_join\<close> maps a table
  (model) name to a list of filters.  A computed-column declaration is a dictionary too.
  In the \<open>extra_field\<close> setting of a rollup the \<open>column_name\<close> of a declaration is the
  \<open>name: str\<close> of a pseudofield (as the constructors annotate it): \<open>ec_column_name\<close> is
  that string, \<open>None\<close> when the declaration has no such key, and \<open>ec_other\<close> holds the
  other keys.
\<close>

type_synonym pydict = "(string \<times> pyval) list"

type_synonym where_before_join = "(string \<times> pydict list) list"

record extra_column =
  ec_column_name :: "string option"
  ec_other :: pydict

record rollup_settings =
  rs_where_before_join :: "where_before_join option"
  rs_group_by :: "string list option"
  rs_extra_field :: "extra_column list option"

datatype exporter =
    Exporter (e_name: string) (e_apps: "app list") (e_rollups: "rollup list")
      (e_fields: "field list") (e_extra_field: "pydict list")
and rollup =
    Rollup (r_name: string) (r_exporter: exporter) (r_fields: "field list")
      (r_settings: rollup_settings)

text \<open>
  The \<open>..._by_name\<close> dictionaries are filled by the constructors together with the lists
  (\<open>parent.fields.append(self); parent.fields_by_name[self.name] = self\<close>), so a name maps
  to the last object of the list that carries it.
\<close>

definition by_name :: "('a \<Rightarrow> string) \<Rightarrow> 'a list \<Rightarrow> string \<Rightarrow> 'a option" where
  "by_name nm xs n = find (\<lambda>x. nm x = n) (rev xs)"

text \<open>\<open>ExporterApp._get_field\<close>\<close>

fun app_get_field_loop :: "model list \<Rightarrow> string \<Rightarrow> field list \<Rightarrow> field list" where
  "app_get_field_loop [] field flds = flds"
| "app_get_field_loop (model # models) field flds =
     (case by_name name_of (m_fields model) field of
        Some f \<Rightarrow> app_get_field_loop models field (flds @ [f])
      | None \<Rightarrow> app_get_field_loop models field flds)"

definition app_get_field :: "app \<Rightarrow> string \<Rightarrow> field list" where
  "app_get_field a field = app_get_field_loop (a_models a) field []"

text \<open>\<open>ExporterRollup._get_field\<close>\<close>

definition rollup_get_field :: "rollup \<Rightarrow> string \<Rightarrow> field list" where
  "rollup_get_field r field =
     (case by_name name_of (r_fields r) field of Some f \<Rightarrow> [f] | None \<Rightarrow> [])"

text \<open>\<open>Exporter.find_field\<close>: first the \<open>app.model.field\<close> form of the name is unpacked.\<close>

definition unpack_dotted :: "string option \<Rightarrow> string option \<Rightarrow> string option \<Rightarrow>
    string option \<times> string option \<times> string option" where
  "unpack_dotted app model field =
     (if given field \<and> \<not> given app \<and> \<not> given model \<and> count_char dot (the field) = 2
      then (case split_on dot (the field) of
              [a, m, f] \<Rightarrow> (Some a, Some m, Some f)
            | _ \<Rightarrow> (app, model, field))
      else (app, model, field))"

definition find_field :: "exporter \<Rightarrow> string option \<Rightarrow> string option \<Rightarrow> string option \<Rightarrow>
    error + field" where
  "find_field self app0 model0 field0 =
     (case unpack_dotted app0 model0 field0 of (app, model, field) \<Rightarrow>
        if given app \<and> given model \<and> given field then
          (case by_name a_name (e_apps self) (the app) of
             None \<Rightarrow> Inl (FieldNotFound NotInExporter)
           | Some app_object \<Rightarrow>
               (case by_name m_name (a_models app_object) (the model) of
                  None \<Rightarrow> Inl (FieldNotFound NotInExporter)
                | Some model_object \<Rightarrow>
                    (case by_name name_of (m_fields model_object) (the field) of
                       None \<Rightarrow> Inl (FieldNotFound NotInExporter)
                     | Some field_object \<Rightarrow> Inr field_object)))
        else if given field then
          (let flds =
                 (case by_name name_of (e_fields self) (the field) of
                    Some field_object \<Rightarrow> [field_object]
                  | None \<Rightarrow> [])
                 @ concat (map (\<lambda>a. app_get_field a (the field)) (e_apps self))
                 @ concat (map (\<lambda>r. rollup_get_field r (the field)) (e_rollups self))
           in if length flds = 0 then Inl (FieldNotFound NotInExporter)
              else if length flds = 1 then Inr (flds ! 0)
              else Inl (FieldNotFound Ambiguous))
        else Inl (FieldNotFound Undefined))"



text \<open>
  \<open>Exporter._resolve_formula\<close>.  The loop runs over the matches found in the formula as
  it was passed; each step replaces every occurrence of the matched text in the formula
  as rewritten so far.
\<close>

fun resolve_formula_loop :: "exporter \<Rightarrow> string option \<Rightarrow> string list \<Rightarrow> string \<Rightarrow> error + string" where
  "resolve_formula_loop self query_layer [] formula = Inr formula"
| "resolve_formula_loop self query_layer (tok # toks) formula =
     (case find_field self None None (Some (str_replace [dq] [] tok)) of
        Inl e \<Rightarrow> Inl e
      | Inr f \<Rightarrow>
          resolve_formula_loop self query_layer toks
            (str_replace tok (column f query_layer) formula))"

definition resolve_formula :: "exporter \<Rightarrow> string option \<Rightarrow> string option \<Rightarrow> error + string option" where
  "resolve_formula self formula query_layer =
     (if \<not> given formula then Inr None
      else if given query_layer \<and> the query_layer \<notin> set [''base'', ''middle''] then Inl ValueError
      else map_sum id Some
             (resolve_formula_loop self query_layer (finditer_quoted (the formula)) (the formula)))"

section \<open>In-place substitution of quoted tokens\<close>

text \<open>
  The reading of formula resolution as in-place substitution: the formula is scanned once,
  left to right; every quoted token is replaced where it stands by what its name resolves
  to; all other text is copied.  The scan finds the tokens as \<open>quoted_tokens\<close> does.
\<close>

fun in_place :: "(string \<Rightarrow> error + string) \<Rightarrow> string option \<Rightarrow> string \<Rightarrow> error + string" where
  "in_place r None [] = Inr []"
| "in_place r (Some acc) [] = Inr (dq # acc)"
| "in_place r None (c # cs) =
     (if c = dq then in_place r (Some []) cs
      else map_sum id (\<lambda>rest. c # rest) (in_place r None cs))"
| "in_place r (Some acc) (c # cs) =
     (if c = dq then
        (case r acc of
           Inl e \<Rightarrow> Inl e
         | Inr col \<Rightarrow> map_sum id (\<lambda>rest. col @ rest) (in_place r None cs))
      else if c = newline then
        map_sum id (\<lambda>rest. dq # acc @ newline # rest) (in_place r None cs)
      else in_place r (Some (acc @ [c])) cs)"

definition resolved_column :: "exporter \<Rightarrow> string option \<Rightarrow> string \<Rightarrow> error + string" where
  "resolved_column self query_layer n =
     map_sum id (\<lambda>f. column f query_layer) (find_field self None None (Some n))"

definition substituted_in_place :: "exporter \<Rightarrow> string \<Rightarrow> string option \<Rightarrow> error + string" where
  "substituted_in_place self formula query_layer =
     in_place (resolved_column self query_layer) None formula"

text \<open>
  A formula written as segments: each segment is the unquoted text before a token and the
  token's field name; \<open>post\<close> is the text after the last token.  \<open>partly\<close> is the formula
  in which the tokens whose names are in \<open>D\<close> have been replaced.
\<close>

definition quoted :: "string \<Rightarrow> string" where
  "quoted n = dq # n @ [dq]"

fun formula_of :: "(string \<times> string) list \<Rightarrow> string \<Rightarrow> string" where
  "formula_of [] post = post"
| "formula_of ((u, n) # segs) post = u @ quoted n @ formula_of segs post"

fun partly :: "(string \<Rightarrow> string) \<Rightarrow> string set \<Rightarrow> (string \<times> string) list \<Rightarrow> string \<Rightarrow> string" where
  "partly col D [] post = post"
| "partly col D ((u, n) # segs) post =
     u @ (if n \<in> D then col n else quoted n) @ partly col D segs post"

fun substituted :: "(string \<Rightarrow> string) \<Rightarrow> (string \<times> string) list \<Rightarrow> string \<Rightarrow> string" where
  "substituted col [] post = post"
| "substituted col ((u, n) # segs) post = u @ col n @ substituted col segs post"

text \<open>
  Text in which the scan finds no token: every double quote in it is followed by a newline
  before the next double quote.  \<open>inert_from\<close> reads text that stands before a token (at
  its end no candidate is open), \<open>inert_end_from\<close> the text after the last token (a last
  double quote may stay open).  The flag tells whether a candidate is open.
\<close>

fun inert_from :: "bool \<Rightarrow> string \<Rightarrow> bool" where
  "inert_from inside [] = (\<not> inside)"
| "inert_from inside (c # cs) =
     (if inside then c \<noteq> dq \<and> inert_from (c \<noteq> newline) cs else inert_from (c = dq) cs)"

fun inert_end_from :: "bool \<Rightarrow> string \<Rightarrow> bool" where
  "inert_end_from inside [] = True"
| "inert_end_from inside (c # cs) =
     (if inside then c \<noteq> dq \<and> inert_end_from (c \<noteq> newline) cs else inert_end_from (c = dq) cs)"

text \<open>
  The segments of a formula, read off by the same scan: \<open>u\<close> is the text since the last
  token, the optional string the body of an open candidate.
\<close>

fun segments_from :: "string \<Rightarrow> string option \<Rightarrow> string \<Rightarrow> (string \<times> string) list \<times> string" where
  "segments_from u None [] = ([], u)"
| "segments_from u (Some b) [] = ([], u @ dq # b)"
| "segments_from u None (c # cs) =
     (if c = dq then segments_from u (Some []) cs else segments_from (u @ [c]) None cs)"
| "segments_from u (Some b) (c # cs) =
     (if c = dq then (case segments_from [] None cs of (segs, post) \<Rightarrow> ((u, b) # segs, post))
      else if c = newline then segments_from (u @ dq # b @ [newline]) None cs
      else segments_from u (Some (b @ [c])) cs)"

definition segments :: "string \<Rightarrow> (string \<times> string) list \<times> string" where
  "segments formula = segments_from [] None formula"

definition token_names :: "string \<Rightarrow> string list" where
  "token_names formula = map snd (fst (segments formula))"

definition canonical :: "(string \<times> string) list \<Rightarrow> string \<Rightarrow> bool" where
  "canonical segs post =
     (list_all (\<lambda>(u, n). inert_from False u \<and> dq \<notin> set n \<and> newline \<notin> set n) segs
      \<and> inert_end_from False post)"

text \<open>
  A replacement step for the name \<open>n\<close>, when the tokens with names in \<open>D\<close> have been
  replaced, touches only tokens if no closing quote of a token that is not yet replaced is
  followed by \<open>n\<close> and a double quote.  \<open>in_place_steps\<close> says so of every step of the
  loop, the names taken in the order of the tokens.
\<close>

fun no_spurious :: "(string \<Rightarrow> string) \<Rightarrow> string set \<Rightarrow> string \<Rightarrow> (string \<times> string) list \<Rightarrow> string \<Rightarrow> bool" where
  "no_spurious col D n [] post = True"
| "no_spurious col D n ((u, m) # segs) post =
     ((m \<in> D \<or> m = n \<or> \<not> prefix (n @ [dq]) (partly col D segs post))
      \<and> no_spurious col D n segs post)"

fun in_place_steps :: "(string \<Rightarrow> string) \<Rightarrow> string set \<Rightarrow> string list \<Rightarrow> (string \<times> string) list \<Rightarrow> string \<Rightarrow> bool" where
  "in_place_steps col D [] segs post = True"
| "in_place_steps col D (n # ns) segs post =
     (no_spurious col D n segs post \<and> in_place_steps col (insert n D) ns segs post)"

text \<open>The exception of the first name, in order, that does not resolve.\<close>

fun first_error :: "(string \<Rightarrow> error + string) \<Rightarrow> string list \<Rightarrow> error option" where
  "first_error r [] = None"
| "first_error r (n # ns) = (case r n of Inl e \<Rightarrow> Some e | Inr c \<Rightarrow> first_error r ns)"

text \<open>What a name resolves to at a layer, when it resolves.\<close>

definition column_of :: "exporter \<Rightarrow> string option \<Rightarrow> string \<Rightarrow> string" where
  "column_of self query_layer n =
     (case find_field self None None (Some n) of Inr f \<Rightarrow> column f query_layer | Inl e \<Rightarrow> [])"

section \<open>Query requests and the result cursor\<close>

text \<open>
  Modelled from the spec: \<open>listify\<close> of \<open>ml_export_wizard.utils.simple\<close> is not among the
  sources.  The spec says that scalar inputs are normalised into single-element lists, and
  the tests that \<open>listify(None)\<close> is \<open>[]\<close> and that the result is a list.
\<close>

fun listify :: "pyval \<Rightarrow> pyval list" where
  "listify PNone = []"
| "listify (PList xs) = xs"
| "listify v = [v]"

text \<open>
  \<open>ExporterQuery\<close>.  \<open>underscore_is_executing\<close> is the attribute \<open>_is_executing\<close> that
  \<open>__init__\<close> sets and \<open>is_update_safe\<close> reads; \<open>is_executing\<close> is the attribute
  \<open>is_executing\<close> that the cursor assigns (absent, \<open>None\<close>, before the first assignment);
  \<open>q_offset\<close> is the attribute \<open>offset\<close> that a rollup assigns.  \<open>q_cursor\<close> tells
  whether \<open>_cursor\<close> holds a cursor object.
\<close>

record exporter_query =
  q_exporter :: exporter
  q_where_before_join :: "where_before_join option"
  q_limit :: pyval
  q_count :: pyval
  q_group_by :: "pyval list"
  q_where :: "pyval list"
  q_extra_field :: "pyval list"
  q_order_by :: "pyval list"
  q_cursor :: bool
  underscore_is_executing :: bool
  is_executing :: "bool option"
  q_offset :: "pyval option"

text \<open>\<open>ExporterQuery.__init__\<close>\<close>

definition new_query :: "exporter \<Rightarrow> pyval \<Rightarrow> pyval \<Rightarrow> where_before_join option \<Rightarrow> pyval \<Rightarrow>
    pyval \<Rightarrow> pyval \<Rightarrow> pyval \<Rightarrow> exporter_query" where
  "new_query exporter count group_by where_before_join where_v extra_field order_by limit =
     \<lparr>q_exporter = exporter,
      q_where_before_join = where_before_join,
      q_limit = limit,
      q_count = count,
      q_group_by = listify group_by,
      q_where = listify where_v,
      q_extra_field = listify extra_field,
      q_order_by = listify order_by,
      q_cursor = False,
      underscore_is_executing = False,
      is_executing = None,
      q_offset = None\<rparr>"

definition is_update_safe :: "exporter_query \<Rightarrow> error + bool" where
  "is_update_safe self =
     (if underscore_is_executing self then Inl QueryExecuting else Inr True)"

text \<open>The property setters: each calls \<open>is_update_safe\<close> first.\<close>

definition set_exporter :: "exporter_query \<Rightarrow> exporter \<Rightarrow> error + exporter_query" where
  "set_exporter self v =
     (case is_update_safe self of Inl e \<Rightarrow> Inl e | Inr ok \<Rightarrow> Inr (self\<lparr>q_exporter := v\<rparr>))"

definition set_where_before_join :: "exporter_query \<Rightarrow> where_before_join option \<Rightarrow> error + exporter_query" where
  "set_where_before_join self v =
     (case is_update_safe self of Inl e \<Rightarrow> Inl e | Inr ok \<Rightarrow> Inr (self\<lparr>q_where_before_join := v\<rparr>))"

definition set_limit :: "exporter_query \<Rightarrow> pyval \<Rightarrow> error + exporter_query" where
  "set_limit self v =
     (case is_update_safe self of Inl e \<Rightarrow> Inl e | Inr ok \<Rightarrow> Inr (self\<lparr>q_limit := v\<rparr>))"

definition set_count :: "exporter_query \<Rightarrow> pyval \<Rightarrow> error + exporter_query" where
  "set_count self v =
     (case is_update_safe self of Inl e \<Rightarrow> Inl e | Inr ok \<Rightarrow> Inr (self\<lparr>q_count := v\<rparr>))"

definition set_group_by :: "exporter_query \<Rightarrow> pyval \<Rightarrow> error + exporter_query" where
  "set_group_by self v =
     (case is_update_safe self of Inl e \<Rightarrow> Inl e | Inr ok \<Rightarrow> Inr (self\<lparr>q_group_by := listify v\<rparr>))"

definition set_where :: "exporter_query \<Rightarrow> pyval \<Rightarrow> error + exporter_query" where
  "set_where self v =
     (case is_update_safe self of Inl e \<Rightarrow> Inl e | Inr ok \<Rightarrow> Inr (self\<lparr>q_where := listify v\<rparr>))"

definition set_extra_field :: "exporter_query \<Rightarrow> pyval \<Rightarrow> error + exporter_query" where
  "set_extra_field self v =
     (case is_update_safe self of Inl e \<Rightarrow> Inl e | Inr ok \<Rightarrow> Inr (self\<lparr>q_extra_field := listify v\<rparr>))"

definition set_order_by :: "exporter_query \<Rightarrow> pyval \<Rightarrow> error + exporter_query" where
  "set_order_by self v =
     (case is_update_safe self of Inl e \<Rightarrow> Inl e | Inr ok \<Rightarrow> Inr (self\<lparr>q_order_by := listify v\<rparr>))"

text \<open>
  \<open>ExporterQuery.cursor\<close> and \<open>Cursor.__init__\<close> register the cursor on the query.
  \<open>Cursor.__enter__\<close> compiles the query, assigns \<open>is_executing\<close> and executes the SQL;
  \<open>final_sql\<close> (the compilation) and \<open>execute\<close> (the database backend, \<open>None\<close> when it
  succeeds) are parameters.  The result is the query afterwards and the exception raised,
  if any.  \<open>Cursor.__exit__\<close> unregisters the cursor and assigns \<open>is_executing\<close>.
\<close>

definition cursor :: "exporter_query \<Rightarrow> exporter_query" where
  "cursor self = self\<lparr>q_cursor := True\<rparr>"

definition cursor_enter :: "(exporter_query \<Rightarrow> error + 'r) \<Rightarrow> ('r \<Rightarrow> error option) \<Rightarrow>
    exporter_query \<Rightarrow> exporter_query \<times> error option" where
  "cursor_enter final_sql execute query =
     (case final_sql query of
        Inl e \<Rightarrow> (query, Some e)
      | Inr compiled \<Rightarrow> (query\<lparr>is_executing := Some True\<rparr>, execute compiled))"

definition cursor_exit :: "exporter_query \<Rightarrow> exporter_query" where
  "cursor_exit query = query\<lparr>q_cursor := False, is_executing := Some False\<rparr>"

section \<open>Literal extra columns\<close>

text \<open>\<open>d.get(k, default)\<close> and \<open>k in d\<close> on a dictionary.\<close>

definition dict_get :: "pydict \<Rightarrow> string \<Rightarrow> pyval \<Rightarrow> pyval" where
  "dict_get d k dflt = (case map_of d k of Some v \<Rightarrow> v | None \<Rightarrow> dflt)"

text \<open>
  \<open>Exporter._resolve_extra_field\<close>, the path for a declaration with a \<open>value\<close> key (the
  first statement of the function).  The text returned for a string is the literal of the
  source, which is not an f-string.  \<open>case int()\<close> also matches a \<open>bool\<close>.  Any other value
  falls through to the rest of the function, which is the parameter \<open>computed\<close>.  The
  result is the select text (or number) and the parameters (here the empty list).
\<close>

definition value_literal_text :: string where
  "value_literal_text = [sq] @ ''{column['' @ [sq] @ ''value'' @ [sq] @ '']}'' @ [sq]"

definition resolve_extra_field :: "(pydict \<Rightarrow> error + pyval \<times> pyval) \<Rightarrow> pydict \<Rightarrow> error + pyval \<times> pyval" where
  "resolve_extra_field computed column_decl =
     (case map_of column_decl ''value'' of
        Some PNone \<Rightarrow> Inr (PStr ''Null'', PList [])
      | Some (PStr s) \<Rightarrow> Inr (PStr value_literal_text, PList [])
      | Some (PInt i) \<Rightarrow> Inr (PInt i, PList [])
      | Some (PBool b) \<Rightarrow> Inr (PBool b, PList [])
      | Some other \<Rightarrow> computed column_decl
      | None \<Rightarrow> computed column_decl)"

section \<open>Constructing a rollup\<close>

text \<open>
  \<open>ExporterRollup.__init__\<close>.  \<open>exporters\<close> is the module's registry.  The lookup
  \<open>exporters[exporter]\<close> is a plain dictionary subscript.  The fields of the rollup are the
  fields of the inner exporter named in \<open>group_by\<close> and a pseudofield for every
  \<open>extra_field\<close>, which is appended by its own constructor and once more by this one;
  \<open>extra_field["column_name"]\<close> is a \<open>KeyError\<close> when the declaration has no such key.
\<close>

fun rollup_group_by_fields :: "exporter \<Rightarrow> string list \<Rightarrow> field list \<Rightarrow> error + field list" where
  "rollup_group_by_fields inner [] flds = Inr flds"
| "rollup_group_by_fields inner (field # rest) flds =
     (if dot \<in> set field then
        (case split_on dot field of
           [app, model, f] \<Rightarrow>
             (case find_field inner (Some app) (Some model) (Some f) of
                Inl e \<Rightarrow> Inl e
              | Inr field_object \<Rightarrow> rollup_group_by_fields inner rest (flds @ [field_object]))
         | _ \<Rightarrow> Inl ValueError)
      else
        (case find_field inner None None (Some field) of
           Inl e \<Rightarrow> Inl e
         | Inr field_object \<Rightarrow> rollup_group_by_fields inner rest (flds @ [field_object])))"

fun rollup_pseudofields :: "extra_column list \<Rightarrow> field list \<Rightarrow> error + field list" where
  "rollup_pseudofields [] flds = Inr flds"
| "rollup_pseudofields (extra_field # rest) flds =
     (case ec_column_name extra_field of
        None \<Rightarrow> Inl KeyError
      | Some n \<Rightarrow>
          rollup_pseudofields rest (flds @ [ExporterPseudofield n, ExporterPseudofield n]))"

definition rollup_init :: "(string \<rightharpoonup> exporter) \<Rightarrow> exporter \<Rightarrow> string \<Rightarrow> string option \<Rightarrow>
    rollup_settings \<Rightarrow> error + rollup \<times> exporter" where
  "rollup_init exporters parent name exporter settings =
     (case (case exporter of None \<Rightarrow> None | Some k \<Rightarrow> exporters k) of
        None \<Rightarrow> Inl KeyError
      | Some inner \<Rightarrow>
          (case rollup_group_by_fields inner
                  (case rs_group_by settings of None \<Rightarrow> [] | Some g \<Rightarrow> g) [] of
             Inl e \<Rightarrow> Inl e
           | Inr flds \<Rightarrow>
               (case rollup_pseudofields
                       (case rs_extra_field settings of None \<Rightarrow> [] | Some x \<Rightarrow> x) flds of
                  Inl e \<Rightarrow> Inl e
                | Inr flds' \<Rightarrow>
                    (let self = Rollup name inner flds' settings
                     in Inr (self,
                          Exporter (e_name parent) (e_apps parent) (e_rollups parent @ [self])
                            (e_fields parent) (e_extra_field parent))))))"

section \<open>Where clauses and the join traversal\<close>

text \<open>
  \<open>_resolve_where\<close>.  The result is the pair of the where text and the parameters; each
  is \<open>None\<close> when an argument is missing or falsy.
\<close>

definition resolve_where :: "pyval \<Rightarrow> field option \<Rightarrow> pyval \<Rightarrow> string option \<Rightarrow>
    string option \<times> (string \<rightharpoonup> pyval) option" where
  "resolve_where operator field val query_layer =
     (if \<not> truthy operator \<or> field = None \<or> \<not> truthy val then (None, None)
      else
        (let field_column = column (the field) query_layer;
             where_bit =
               (case operator of
                  PStr op \<Rightarrow>
                    if op \<in> set [''='', ''>='', ''<='', ''<>'', ''!='']
                    then join ''AND '' (filter_none [[], field_column @ op @ ''%('' @ field_column @ '')s''])
                    else []
                | other \<Rightarrow> [])
         in (Some where_bit, Some [field_column \<mapsto> val])))"

text \<open>\<open>ExporterField._sql_dict\<close> and \<open>ExporterPseudofield._sql_dict\<close>.\<close>

fun field_sql_dict :: "field \<Rightarrow> string option \<Rightarrow> string option \<Rightarrow> sql_dict" where
  "field_sql_dict (ExporterField n table jo d) table_name query_layer =
     (if jo \<or> field_class d \<in> set [ManyToOneRel, ManyToManyField, ManyToManyRel, OneToOneRel, ForeignKey]
      then empty_sql_dict
      else
        (let column_name = column (ExporterField n table jo d) query_layer
         in \<lparr>clauses =
               [''select'' \<mapsto> (if given table_name then the table_name else table) @ ''.'' @ column_name,
                ''select_no_table'' \<mapsto> column_name],
             parameters = None\<rparr>))"
| "field_sql_dict (ExporterPseudofield n) table_name query_layer = empty_sql_dict"

text \<open>
  The parts of \<open>ExporterModel._sql_dict\<close> before the joins.  The loop over the filters of
  \<open>where_before_join\<close> keeps the where text of the last filter and unions the parameters
  of each into the fragment; the union with the \<open>None\<close> that \<open>_resolve_where\<close> may return
  is a \<open>TypeError\<close>, the subscript with a field name the model does not have a \<open>KeyError\<close>.
\<close>

fun where_before_join_loop :: "model \<Rightarrow> pydict list \<Rightarrow> string option \<times> sql_dict \<Rightarrow>
    error + string option \<times> sql_dict" where
  "where_before_join_loop self [] acc = Inr acc"
| "where_before_join_loop self (limit # limits) (where_bit, sql_dict) =
     (case dict_get limit ''field'' PNone of
        PStr fname \<Rightarrow>
          (case by_name name_of (m_fields self) fname of
             None \<Rightarrow> Inl KeyError
           | Some field \<Rightarrow>
               (case resolve_where (dict_get limit ''operator'' (PStr ''='')) (Some field)
                       (dict_get limit ''value'' PNone) None of
                  (where_bit', Some ps) \<Rightarrow>
                    where_before_join_loop self limits
                      (where_bit', sql_dict\<lparr>parameters := Some (parameters_of sql_dict ++ ps)\<rparr>)
                | (where_bit', None) \<Rightarrow> Inl TypeError))
      | PList xs \<Rightarrow> Inl TypeError
      | PDict kvs \<Rightarrow> Inl TypeError
      | other \<Rightarrow> Inl KeyError)"

definition py_str :: "string option \<Rightarrow> string" where
  "py_str s = (case s of None \<Rightarrow> ''None'' | Some v \<Rightarrow> v)"

definition model_table_and_from :: "model \<Rightarrow> exporter_query \<Rightarrow> bool \<Rightarrow> model option \<Rightarrow>
    string option \<Rightarrow> error + sql_dict" where
  "model_table_and_from self query left_join join_model join_using =
     (case (case q_where_before_join query of
              None \<Rightarrow> Inr (m_table self, empty_sql_dict)
            | Some wbj \<Rightarrow>
                (case (if wbj = [] then None else map_of wbj (m_name self)) of
                   None \<Rightarrow> Inr (m_table self, empty_sql_dict)
                 | Some limits \<Rightarrow>
                     (case where_before_join_loop self limits (Some [], empty_sql_dict) of
                        Inl e \<Rightarrow> Inl e
                      | Inr (where_bit, sql_dict) \<Rightarrow>
                          if given where_bit
                          then Inr ('' (SELECT * FROM '' @ m_table self @ '' WHERE '' @ the where_bit
                                      @ '') AS '' @ m_table self, sql_dict)
                          else Inr (m_table self, sql_dict)))) of
        Inl e \<Rightarrow> Inl e
      | Inr (table, sql_dict) \<Rightarrow>
          (let join_criteria =
                 (case join_model of
                    Some jm \<Rightarrow> ''ON '' @ m_table self @ ''.'' @ py_str join_using @ '' = ''
                                @ m_table jm @ ''.'' @ py_str join_using
                  | None \<Rightarrow> ''USING ('' @ py_str join_using @ '')'')
           in Inr (if left_join then
                     (if given join_using
                      then sql_dict\<lparr>clauses := (clauses sql_dict)(''from'' \<mapsto> ''LEFT JOIN '' @ table @ '' '' @ join_criteria)\<rparr>
                      else sql_dict)
                   else if given join_using
                     then sql_dict\<lparr>clauses := (clauses sql_dict)(''from'' \<mapsto> ''JOIN '' @ table @ '' '' @ join_criteria)\<rparr>
                   else sql_dict\<lparr>clauses := (clauses sql_dict)(''from'' \<mapsto> table)\<rparr>)))"

text \<open>The loop that merges the fragments of the model's own fields.\<close>

fun merge_fields :: "field list \<Rightarrow> string option \<Rightarrow> string option \<Rightarrow> sql_dict option \<Rightarrow> sql_dict option" where
  "merge_fields [] table_name query_layer sql_dict = sql_dict"
| "merge_fields (field # rest) table_name query_layer sql_dict =
     merge_fields rest table_name query_layer
       (merge_sql_dicts sql_dict (Some (field_sql_dict field table_name query_layer)))"

text \<open>
  The state of one compile pass: \<open>prepped_models\<close> of the app (the models are identified
  by their names, every model reached comes from \<open>models_by_name\<close>), and a log, kept for
  the verification only, of the models whose \<open>_sql_dict\<close> ran, in call order.
\<close>

record compile_state =
  prepped_models :: "string set"
  joined :: "string list"

text \<open>Whether the join loop follows a field, and to which model.\<close>

definition is_relationship :: "field \<Rightarrow> bool" where
  "is_relationship f =
     (case f of
        ExporterField n t jo d \<Rightarrow> field_class d \<in> set [ManyToOneRel, ForeignKey, OneToOneRel]
      | ExporterPseudofield n \<Rightarrow> False)"

definition related_model_name :: "field \<Rightarrow> string" where
  "related_model_name f =
     (case f of ExporterField n t jo d \<Rightarrow> related_model d | ExporterPseudofield n \<Rightarrow> [])"

definition suppressed :: "model \<Rightarrow> model \<Rightarrow> bool" where
  "suppressed self join_model =
     ((case m_dont_link_to self of None \<Rightarrow> False | Some names \<Rightarrow> m_name join_model \<in> set names)
      \<or> (case m_dont_link_to join_model of None \<Rightarrow> False | Some names \<Rightarrow> m_name self \<in> set names))"

text \<open>
  \<open>ExporterModel._sql_dict\<close> and its loop over the fields that joins the related models.
  The recursion is bounded by fuel: \<open>None\<close> is the result when the fuel runs out.
\<close>

fun model_sql_dict :: "nat \<Rightarrow> app \<Rightarrow> exporter_query \<Rightarrow> string option \<Rightarrow> model \<Rightarrow> bool \<Rightarrow>
      model option \<Rightarrow> string option \<Rightarrow> compile_state \<Rightarrow> (error + sql_dict option \<times> compile_state) option"
  and join_related :: "nat \<Rightarrow> app \<Rightarrow> exporter_query \<Rightarrow> string option \<Rightarrow> model \<Rightarrow> field list \<Rightarrow>
      sql_dict option \<Rightarrow> compile_state \<Rightarrow> (error + sql_dict option \<times> compile_state) option"
where
  "model_sql_dict 0 parent query query_layer self left_join join_model join_using st = None"
| "model_sql_dict (Suc fuel) parent query query_layer self left_join join_model join_using st =
     (case model_table_and_from self query left_join join_model join_using of
        Inl e \<Rightarrow> Some (Inl e)
      | Inr sql_dict \<Rightarrow>
          join_related fuel parent query query_layer self (m_fields self)
            (merge_fields (m_fields self) None query_layer (Some sql_dict))
            (st\<lparr>prepped_models := insert (m_name self) (prepped_models st),
                joined := joined st @ [m_name self]\<rparr>))"
| "join_related fuel parent query query_layer self [] sql_dict st = Some (Inr (sql_dict, st))"
| "join_related fuel parent query query_layer self (field # rest) sql_dict st =
     (if is_relationship field then
        (case by_name m_name (a_models parent) (related_model_name field) of
           None \<Rightarrow> join_related fuel parent query query_layer self rest sql_dict st
         | Some join_model \<Rightarrow>
             if m_name join_model \<in> prepped_models st \<or> suppressed self join_model
             then join_related fuel parent query query_layer self rest sql_dict st
             else
               (case model_sql_dict fuel parent query query_layer join_model True (Some self)
                       (Some (column field None)) st of
                  None \<Rightarrow> None
                | Some (Inl e) \<Rightarrow> Some (Inl e)
                | Some (Inr (joined_dict, st')) \<Rightarrow>
                    join_related fuel parent query query_layer self rest
                      (merge_sql_dicts sql_dict joined_dict) st'))
      else join_related fuel parent query query_layer self rest sql_dict st)"

text \<open>\<open>ExporterApp._sql_dict\<close>: the pass starts with an empty \<open>prepped_models\<close>.\<close>

definition app_sql_dict :: "nat \<Rightarrow> app \<Rightarrow> exporter_query \<Rightarrow> string option \<Rightarrow> compile_state \<Rightarrow>
    (error + sql_dict option \<times> compile_state) option" where
  "app_sql_dict fuel self query query_layer st =
     (if \<not> given (a_primary_model self) then Some (Inl ImproperlyConfigured)
      else
        (case by_name m_name (a_models self) (the (a_primary_model self)) of
           None \<Rightarrow> Some (Inl KeyError)
         | Some primary \<Rightarrow>
             model_sql_dict fuel self query query_layer primary False None None
               (st\<lparr>prepped_models := {}, joined := []\<rparr>)))"

text \<open>
  The invariant of a compile pass: the log has no model twice and lists exactly the models
  of \<open>prepped_models\<close>.  \<open>pass_ok\<close> is what holds of a result: fuel sufficed, and a
  returned state keeps the invariant and has not lost a model.
\<close>

definition pass_inv :: "compile_state \<Rightarrow> bool" where
  "pass_inv st = (distinct (joined st) \<and> set (joined st) = prepped_models st)"

definition pass_ok :: "compile_state \<Rightarrow> (error + sql_dict option \<times> compile_state) option \<Rightarrow> bool" where
  "pass_ok st r =
     (case r of
        None \<Rightarrow> False
      | Some (Inl e) \<Rightarrow> True
      | Some (Inr (sd, st')) \<Rightarrow> pass_inv st' \<and> prepped_models st \<subseteq> prepped_models st')"

definition model_names :: "app \<Rightarrow> string set" where
  "model_names parent = m_name ` set (a_models parent)"

section \<open>Compiling a rollup\<close>













section \<open>Example inputs\<close>

text \<open>Two fragments in the shape of the repository's test fixtures.\<close>

definition test_dict1 :: sql_dict where
  "test_dict1 = \<lparr>clauses = [''select'' \<mapsto> ''one as one_thing'', ''select_no_table'' \<mapsto> [],
       ''from'' \<mapsto> ''test1 as test_table_1'', ''where'' \<mapsto> ''thing1 = 1'',
       ''group_by'' \<mapsto> ''thing1''],
     parameters = Some [''p'' \<mapsto> PInt 1, ''q'' \<mapsto> PInt 1]\<rparr>"

definition test_dict2 :: sql_dict where
  "test_dict2 = \<lparr>clauses = [''select'' \<mapsto> ''two as two_thing'', ''select_no_table'' \<mapsto> [],
       ''from'' \<mapsto> ''test2 as test_table_2'', ''where'' \<mapsto> ''thing2 = 2''],
     parameters = Some [''q'' \<mapsto> PInt 2]\<rparr>"

text \<open>An exporter with one app of two related models.\<close>

definition plain :: "string \<Rightarrow> descriptor" where
  "plain c = \<lparr>field_class = PlainField, column_attr = Some c, field_name_attr = None, related_model = []\<rparr>"

definition sample_model :: model where
  "sample_model = \<lparr>m_name = ''Sample'', m_table = ''core_sample'',
     m_fields = [ExporterField ''id'' ''core_sample'' False (plain ''id''),
                 ExporterField ''name'' ''core_sample'' False (plain ''name''),
                 ExporterField ''subject'' ''core_sample'' False
                   \<lparr>field_class = ManyToOneRel, column_attr = None, field_name_attr = Some ''id'',
                    related_model = ''Subject''\<rparr>],
     m_dont_link_to = None\<rparr>"

definition subject_model :: model where
  "subject_model = \<lparr>m_name = ''Subject'', m_table = ''core_subject'',
     m_fields = [ExporterField ''id'' ''core_subject'' False (plain ''id''),
                 ExporterField ''sample'' ''core_subject'' False
                   \<lparr>field_class = ForeignKey, column_attr = Some ''sample_id'', field_name_attr = None,
                    related_model = ''Sample''\<rparr>],
     m_dont_link_to = None\<rparr>"

definition core_app :: app where
  "core_app = \<lparr>a_name = ''core'', a_models = [subject_model, sample_model],
     a_primary_model = Some ''Subject''\<rparr>"

definition core_exporter :: exporter where
  "core_exporter = Exporter ''Core'' [core_app] [] [] []"

text \<open>
  Formulas: two tokens; one in which the text between two tokens is itself the name of a
  token; two adjacent tokens; a token followed by a stray double quote; a name that does
  not resolve.
\<close>

definition two_token_formula :: string where
  "two_token_formula = ''f('' @ quoted ''name'' @ '', '' @ quoted ''sample'' @ '')''"

definition adjacent_formula :: string where
  "adjacent_formula = quoted ''name'' @ '' '' @ quoted ''sample'' @ ''name'' @ quoted ''sample''"

definition touching_formula :: string where
  "touching_formula = quoted ''name'' @ quoted ''sample''"

definition stray_quote_formula :: string where
  "stray_quote_formula = quoted ''name'' @ '' x'' @ [dq]"

definition unknown_name_formula :: string where
  "unknown_name_formula = ''f('' @ quoted ''name'' @ '', '' @ quoted ''colour'' @ '')''"

text \<open>
  A fresh query on the example exporter, a compilation and a backend that succeed, the
  remainder of \<open>_resolve_extra_field\<close> for a declaration that names no source, and a
  registry that holds the example exporter only.
\<close>

definition fresh_query :: exporter_query where
  "fresh_query = new_query core_exporter PNone PNone None PNone PNone PNone PNone"

definition compiles :: "exporter_query \<Rightarrow> error + string" where
  "compiles q = Inr ''SELECT * FROM (SELECT core_subject.id FROM core_subject ) AS Core''"

definition executes :: "string \<Rightarrow> error option" where
  "executes sql = None"

definition nothing_computed :: "pydict \<Rightarrow> error + pyval \<times> pyval" where
  "nothing_computed column_decl = Inr (PStr [], PDict [])"

definition registry :: "string \<rightharpoonup> exporter" where
  "registry = [''Core'' \<mapsto> core_exporter]"

definition no_settings :: rollup_settings where
  "no_settings = \<lparr>rs_where_before_join = None, rs_group_by = None, rs_extra_field = None\<rparr>"

text \<open>Queries with a pre-join filter on the primary model: one with the value 0, one with 7.\<close>

definition zero_filter_query :: exporter_query where
  "zero_filter_query =
     new_query core_exporter PNone PNone
       (Some [(''Subject'', [[(''field'', PStr ''id''), (''value'', PInt 0)]])])
       PNone PNone PNone PNone"


definition no_state :: compile_state where
  "no_state = \<lparr>prepped_models = {}, joined = []\<rparr>"

text \<open>The reverse relation of \<open>Sample\<close> to \<open>Subject\<close>, and a pass that has joined \<open>Subject\<close>.\<close>

definition sample_subject_link :: field where
  "sample_subject_link = ExporterField ''subject'' ''core_sample'' False
     \<lparr>field_class = ManyToOneRel, column_attr = None, field_name_attr = Some ''id'',
      related_model = ''Subject''\<rparr>"

definition visited_subject :: compile_state where
  "visited_subject = \<lparr>prepped_models = {''Subject''}, joined = [''Subject'']\<rparr>"





section \<open>Properties of \<open>merge_sql_dicts\<close>\<close>

lemma merge_clause_eq:
  "merge_clause a b m (k, sep) =
     m(k \<mapsto> join sep (filter_none (clause_values a k @ clause_values b k)))"
  by (simp add: clause_values_def filter_none_def split: option.splits)

lemma foldl_merge_clause:
  "foldl (merge_clause a b) m xs key =
     (case map_of (rev xs) key of
        None \<Rightarrow> m key
      | Some sep \<Rightarrow> Some (join sep (filter_none (clause_values a key @ clause_values b key))))"
proof (induction xs arbitrary: m)
  case Nil
  show ?case by simp
next
  case (Cons x xs)
  obtain k sep where x: "x = (k, sep)" by (cases x)
  show ?case
    unfolding x foldl_Cons Cons.IH merge_clause_eq
    by (simp add: map_add_def split: option.splits)
qed

lemma map_of_rev_mergers:
  "(key, sep) \<in> set mergers \<Longrightarrow> map_of (rev mergers) key = Some sep"
  unfolding mergers_def by auto

lemma merged_clause:
  "(key, sep) \<in> set mergers \<Longrightarrow>
   clauses (the (merge_sql_dicts (Some a) (Some b))) key =
     Some (join sep (filter_none (clause_values a key @ clause_values b key)))"
  by (simp add: merge_sql_dicts_def foldl_merge_clause map_of_rev_mergers)

lemma merged_parameters:
  "parameters (the (merge_sql_dicts (Some a) (Some b))) = Some (parameters_of a ++ parameters_of b)"
  by (simp add: merge_sql_dicts_def merge_parameters_def parameters_of_def split: option.splits)

lemma merged_absent:
  assumes "(key, sep) \<in> set mergers" "clauses a key = None" "clauses b key = None"
  shows "clauses (the (merge_sql_dicts (Some a) (Some b))) key = Some []"
  using merged_clause [OF assms(1), of a b] assms(2,3)
  by (simp add: clause_values_def filter_none_def)

text \<open>
  C1.  \<open>merge_sql_dicts\<close> is defined on every pair of optional fragments.  Two \<open>None\<close>
  give \<open>None\<close>; one \<open>None\<close> gives (a copy of) the other operand.  For two fragments the
  result is a fragment in which each of \<open>select\<close>, \<open>select_no_table\<close>, \<open>from\<close>,
  \<open>where\<close>, \<open>group_by\<close>, \<open>having\<close> is the operands' non-empty values for that clause
  joined with the clause's separator (\<open>", "\<close>, \<open>", "\<close>, \<open>" "\<close>, \<open>" AND "\<close>, \<open>", "\<close>,
  \<open>" AND "\<close>), a clause absent from both operands is the empty string, and
  \<open>parameters\<close> is the union of the operands' maps in which the second operand wins.
\<close>

theorem merge_sql_dicts_total_and_joined:
  "merge_sql_dicts None None = None
   \<and> merge_sql_dicts (Some a) None = Some a
   \<and> merge_sql_dicts None (Some a) = Some a
   \<and> (\<exists>m. merge_sql_dicts (Some a) (Some b) = Some m
        \<and> clauses m ''select'' =
            Some (join '', '' (filter_none (clause_values a ''select'' @ clause_values b ''select'')))
        \<and> clauses m ''select_no_table'' =
            Some (join '', '' (filter_none (clause_values a ''select_no_table'' @ clause_values b ''select_no_table'')))
        \<and> clauses m ''from'' =
            Some (join '' '' (filter_none (clause_values a ''from'' @ clause_values b ''from'')))
        \<and> clauses m ''where'' =
            Some (join '' AND '' (filter_none (clause_values a ''where'' @ clause_values b ''where'')))
        \<and> clauses m ''group_by'' =
            Some (join '', '' (filter_none (clause_values a ''group_by'' @ clause_values b ''group_by'')))
        \<and> clauses m ''having'' =
            Some (join '' AND '' (filter_none (clause_values a ''having'' @ clause_values b ''having'')))
        \<and> (\<forall>key \<in> fst ` set mergers.
              clauses a key = None \<and> clauses b key = None \<longrightarrow> clauses m key = Some [])
        \<and> parameters m = Some (parameters_of a ++ parameters_of b)
        \<and> (\<forall>k v. parameters_of b k = Some v \<longrightarrow> the (parameters m) k = Some v))"
proof -
  have some: "merge_sql_dicts (Some a) (Some b) = Some (the (merge_sql_dicts (Some a) (Some b)))"
    by (simp add: merge_sql_dicts_def)
  have keys: "(''select'', '', '') \<in> set mergers" "(''select_no_table'', '', '') \<in> set mergers"
    "(''from'', '' '') \<in> set mergers" "(''where'', '' AND '') \<in> set mergers"
    "(''group_by'', '', '') \<in> set mergers" "(''having'', '' AND '') \<in> set mergers"
    by (simp_all add: mergers_def)
  have absent: "\<forall>key \<in> fst ` set mergers.
      clauses a key = None \<and> clauses b key = None \<longrightarrow>
      clauses (the (merge_sql_dicts (Some a) (Some b))) key = Some []"
    using merged_absent by fastforce
  have wins: "\<forall>k v. parameters_of b k = Some v \<longrightarrow>
      the (parameters (the (merge_sql_dicts (Some a) (Some b)))) k = Some v"
    by (simp add: merged_parameters)
  have nones: "merge_sql_dicts None None = None" "merge_sql_dicts (Some a) None = Some a"
    "merge_sql_dicts None (Some a) = Some a"
    by (simp_all add: merge_sql_dicts_def)
  show ?thesis
    using some keys(1-6) [THEN merged_clause, of a b] absent wins nones merged_parameters [of a b]
    by blast
qed

theorem merge_sql_dicts_total_and_joined_witness:
  "\<exists>m. merge_sql_dicts (Some test_dict1) (Some test_dict2) = Some m
     \<and> clauses m ''select'' = Some ''one as one_thing, two as two_thing''
     \<and> clauses m ''select_no_table'' = Some []
     \<and> clauses m ''from'' = Some ''test1 as test_table_1 test2 as test_table_2''
     \<and> clauses m ''where'' = Some ''thing1 = 1 AND thing2 = 2''
     \<and> clauses m ''group_by'' = Some ''thing1''
     \<and> ''having'' \<in> fst ` set mergers
     \<and> clauses test_dict1 ''having'' = None \<and> clauses test_dict2 ''having'' = None
     \<and> clauses m ''having'' = Some []
     \<and> parameters_of test_dict2 ''q'' = Some (PInt 2)
     \<and> the (parameters m) ''q'' = Some (PInt 2)
     \<and> the (parameters m) ''p'' = Some (PInt 1)"
proof -
  have h: "''having'' \<in> fst ` set mergers"
    by (simp add: mergers_def)
  have q: "parameters_of test_dict2 ''q'' = Some (PInt 2)"
    by (simp add: parameters_of_def test_dict2_def)
  from merge_sql_dicts_total_and_joined [of test_dict1 test_dict2]
  obtain m where m: "merge_sql_dicts (Some test_dict1) (Some test_dict2) = Some m"
    and sel: "clauses m ''select'' =
            Some (join '', '' (filter_none (clause_values test_dict1 ''select'' @ clause_values test_dict2 ''select'')))"
    and snt: "clauses m ''select_no_table'' =
            Some (join '', '' (filter_none (clause_values test_dict1 ''select_no_table'' @ clause_values test_dict2 ''select_no_table'')))"
    and frm: "clauses m ''from'' =
            Some (join '' '' (filter_none (clause_values test_dict1 ''from'' @ clause_values test_dict2 ''from'')))"
    and whr: "clauses m ''where'' =
            Some (join '' AND '' (filter_none (clause_values test_dict1 ''where'' @ clause_values test_dict2 ''where'')))"
    and grp: "clauses m ''group_by'' =
            Some (join '', '' (filter_none (clause_values test_dict1 ''group_by'' @ clause_values test_dict2 ''group_by'')))"
    and absent: "\<forall>key \<in> fst ` set mergers.
              clauses test_dict1 key = None \<and> clauses test_dict2 key = None \<longrightarrow> clauses m key = Some []"
    and par: "parameters m = Some (parameters_of test_dict1 ++ parameters_of test_dict2)"
    and wins: "\<forall>k v. parameters_of test_dict2 k = Some v \<longrightarrow> the (parameters m) k = Some v"
    by blast
  have a1: "clauses test_dict1 ''having'' = None" and a2: "clauses test_dict2 ''having'' = None"
    by (simp_all add: test_dict1_def test_dict2_def)
  have hv: "clauses m ''having'' = Some []"
    using absent h a1 a2 by blast
  have qq: "the (parameters m) ''q'' = Some (PInt 2)"
    using wins q by blast
  have pp: "the (parameters m) ''p'' = Some (PInt 1)"
    unfolding par by (simp add: parameters_of_def test_dict1_def test_dict2_def map_add_def)
  have vals:
    "clauses m ''select'' = Some ''one as one_thing, two as two_thing''"
    "clauses m ''select_no_table'' = Some []"
    "clauses m ''from'' = Some ''test1 as test_table_1 test2 as test_table_2''"
    "clauses m ''where'' = Some ''thing1 = 1 AND thing2 = 2''"
    "clauses m ''group_by'' = Some ''thing1''"
    unfolding sel snt frm whr grp
    by (simp_all add: clause_values_def filter_none_def test_dict1_def test_dict2_def)
  show ?thesis
    using m vals h a1 a2 hv q qq pp by blast
qed

section \<open>Properties of the field catalog\<close>








text \<open>A name with exactly two dots is looked up as \<open>app.model.field\<close>.\<close>

lemma split_on_nonempty: "split_on c s \<noteq> []"
  by (induction s) (auto split: list.splits)

lemma split_on_length: "length (split_on c s) = Suc (count_char c s)"
  by (induction s) (auto simp: count_char_def split_on_nonempty split: list.splits)

lemma split_on_no_sep: "p \<in> set (split_on c s) \<Longrightarrow> c \<notin> set p"
  by (induction s arbitrary: p) (auto split: if_splits list.splits)

lemma find_field_dotted:
  assumes "count_char dot n = 2"
  shows "\<exists>a m f. split_on dot n = [a, m, f]
           \<and> find_field self None None (Some n) = find_field self (Some a) (Some m) (Some f)"
proof -
  have "length (split_on dot n) = 3"
    using assms by (simp add: split_on_length)
  then obtain a m f where s: "split_on dot n = [a, m, f]"
    by (auto simp: length_Suc_conv numeral_3_eq_3)
  have "f \<in> set (split_on dot n)" by (simp add: s)
  then have "dot \<notin> set f" by (rule split_on_no_sep)
  then have "filter (\<lambda>x. x = dot) f = []"
    by (auto simp: filter_empty_conv)
  then have cf: "count_char dot f \<noteq> 2"
    by (simp add: count_char_def)
  have ne: "n \<noteq> []" using assms by (auto simp: count_char_def)
  have u1: "unpack_dotted None None (Some n) = (Some a, Some m, Some f)"
    using assms ne by (simp add: unpack_dotted_def given_def s)
  have u2: "unpack_dotted (Some a) (Some m) (Some f) = (Some a, Some m, Some f)"
    using cf by (simp add: unpack_dotted_def)
  show ?thesis
    using s by (simp add: find_field_def u1 u2)
qed




section \<open>Column rendering by query layer\<close>

text \<open>
  C3 as stated asks for \<open>t_c AS c\<close> at layer \<open>outer\<close>; the code writes the keyword in
  lower case there.
\<close>

theorem column_outer_counterexample:
  "column (ExporterField ''id'' ''t'' False (plain ''c'')) (Some ''outer'') \<noteq> ''t_c AS c''"
  by (simp add: plain_def)

text \<open>
  C3, amended.  For a field whose descriptor has the column \<open>c\<close> and whose parent's table is
  \<open>t\<close>, \<open>column\<close> is a function of the field and the layer only and returns \<open>t.c\<close> at
  layer \<open>base\<close>, \<open>c AS t_c\<close> at \<open>inner\<close>, \<open>t_c\<close> at \<open>middle\<close>, \<open>t_c as c\<close> (lower-case
  keyword) at \<open>outer\<close>, and the bare \<open>c\<close> when the layer is \<open>None\<close>.
\<close>

theorem column_by_layer:
  assumes "column_attr d = Some c"
  shows "column (ExporterField n t jo d) (Some ''base'') = t @ ''.'' @ c
    \<and> column (ExporterField n t jo d) (Some ''inner'') = c @ '' AS '' @ t @ ''_'' @ c
    \<and> column (ExporterField n t jo d) (Some ''middle'') = t @ ''_'' @ c
    \<and> column (ExporterField n t jo d) (Some ''outer'') = t @ ''_'' @ c @ '' as '' @ c
    \<and> column (ExporterField n t jo d) None = c"
  using assms by simp

theorem column_by_layer_witness:
  "column_attr (plain ''name'') = Some ''name''
   \<and> column (ExporterField ''name'' ''core_sample'' False (plain ''name'')) (Some ''base'') = ''core_sample.name''
   \<and> column (ExporterField ''name'' ''core_sample'' False (plain ''name'')) (Some ''inner'') = ''name AS core_sample_name''
   \<and> column (ExporterField ''name'' ''core_sample'' False (plain ''name'')) (Some ''middle'') = ''core_sample_name''
   \<and> column (ExporterField ''name'' ''core_sample'' False (plain ''name'')) (Some ''outer'') = ''core_sample_name as name''
   \<and> column (ExporterField ''name'' ''core_sample'' False (plain ''name'')) None = ''name''"
proof -
  have h: "column_attr (plain ''name'') = Some ''name''"
    by (simp add: plain_def)
  show ?thesis
    using h column_by_layer [OF h, of "''name''" "''core_sample''" False] by simp
qed

section \<open>Formula resolution\<close>

lemma str_replace_Nil: "old \<noteq> [] \<Longrightarrow> str_replace old new [] = []"
  by (subst str_replace.simps) simp

lemma str_replace_match:
  "old \<noteq> [] \<Longrightarrow> str_replace old new (old @ R) = new @ str_replace old new R"
  by (subst str_replace.simps) simp

lemma str_replace_skip:
  "old \<noteq> [] \<Longrightarrow> \<not> prefix old (c # R) \<Longrightarrow> str_replace old new (c # R) = c # str_replace old new R"
  by (subst str_replace.simps) simp

lemma str_replace_through:
  "dq \<notin> set u \<Longrightarrow> str_replace (quoted n) new (u @ R) = u @ str_replace (quoted n) new R"
proof (induction u)
  case Nil
  show ?case by simp
next
  case (Cons c u)
  have "\<not> prefix (quoted n) (c # u @ R)"
    using Cons.prems by (auto simp: quoted_def)
  then show ?case
    using Cons by (simp add: str_replace_skip quoted_def)
qed

lemma prefix_name_eq:
  "dq \<notin> set n \<Longrightarrow> dq \<notin> set m \<Longrightarrow> prefix (n @ [dq]) (m @ dq # R) \<Longrightarrow> n = m"
proof (induction n arbitrary: m)
  case Nil
  then show ?case by (cases m) auto
next
  case (Cons a n)
  then show ?case by (cases m) auto
qed

lemma str_replace_delete_char:
  "str_replace [c] [] s = filter (\<lambda>x. x \<noteq> c) s"
proof (induction s)
  case Nil
  show ?case by (simp add: str_replace_Nil)
next
  case (Cons x s)
  show ?case
  proof (cases "x = c")
    case True
    then show ?thesis
      using str_replace_match [of "[c]" "[]" s] Cons by simp
  next
    case False
    then show ?thesis
      using str_replace_skip [of "[c]" x s "[]"] Cons by simp
  qed
qed

lemma unquote: "dq \<notin> set n \<Longrightarrow> str_replace [dq] [] (quoted n) = n"
  by (auto simp: str_replace_delete_char quoted_def filter_id_conv)

lemma tokens_name:
  "dq \<notin> set n \<Longrightarrow> newline \<notin> set n \<Longrightarrow>
   quoted_tokens (Some acc) (n @ dq # R) = (dq # acc @ n @ [dq]) # quoted_tokens None R"
  by (induction n arbitrary: acc) auto

lemma in_place_name:
  "dq \<notin> set n \<Longrightarrow> newline \<notin> set n \<Longrightarrow>
   in_place r (Some acc) (n @ dq # R) =
     (case r (acc @ n) of
        Inl e \<Rightarrow> Inl e
      | Inr col \<Rightarrow> map_sum id (\<lambda>rest. col @ rest) (in_place r None R))"
  by (induction n arbitrary: acc) auto

lemma partly_empty: "partly col {} segs post = formula_of segs post"
  by (induction segs) auto

lemma partly_all: "snd ` set segs \<subseteq> D \<Longrightarrow> partly col D segs post = substituted col segs post"
  by (induction segs) auto

lemma inert_not_prefix:
  "inert_from True b \<Longrightarrow> newline \<notin> set n \<Longrightarrow> \<not> prefix (n @ [dq]) (b @ R)"
proof (induction b arbitrary: n)
  case Nil
  then show ?case by simp
next
  case (Cons c b)
  then show ?case by (cases n) (auto split: if_splits)
qed

lemma inert_end_not_prefix:
  "inert_end_from True b \<Longrightarrow> newline \<notin> set n \<Longrightarrow> \<not> prefix (n @ [dq]) b"
proof (induction b arbitrary: n)
  case Nil
  then show ?case by simp
next
  case (Cons c b)
  then show ?case by (cases n) (auto split: if_splits)
qed

lemma str_replace_inert:
  "inert_from s u \<Longrightarrow> newline \<notin> set n \<Longrightarrow>
   str_replace (quoted n) new (u @ R) = u @ str_replace (quoted n) new R"
proof (induction u arbitrary: s)
  case Nil
  show ?case by simp
next
  case (Cons c u)
  have q: "quoted n \<noteq> []" by (simp add: quoted_def)
  show ?case
  proof (cases "c = dq")
    case True
    then have i: "inert_from True u"
      using Cons.prems(1) by (cases s) simp_all
    have "\<not> prefix (quoted n) (c # u @ R)"
      using inert_not_prefix [OF i Cons.prems(2), of R] True by (simp add: quoted_def)
    then show ?thesis
      using str_replace_skip [OF q, of c "u @ R" new] Cons.IH [OF i Cons.prems(2)] by simp
  next
    case False
    then have np: "\<not> prefix (quoted n) (c # u @ R)"
      by (simp add: quoted_def)
    obtain s' where "inert_from s' u"
      using Cons.prems(1) False by (cases s) (auto split: if_splits)
    then show ?thesis
      using str_replace_skip [OF q np, of new] Cons.IH [OF _ Cons.prems(2)] by simp
  qed
qed

lemma str_replace_inert_end:
  "inert_end_from s p \<Longrightarrow> newline \<notin> set n \<Longrightarrow> str_replace (quoted n) new p = p"
proof (induction p arbitrary: s)
  case Nil
  show ?case by (simp add: str_replace_Nil quoted_def)
next
  case (Cons c p)
  have q: "quoted n \<noteq> []" by (simp add: quoted_def)
  show ?case
  proof (cases "c = dq")
    case True
    then have i: "inert_end_from True p"
      using Cons.prems(1) by (cases s) simp_all
    have "\<not> prefix (quoted n) (c # p)"
      using inert_end_not_prefix [OF i Cons.prems(2)] True by (simp add: quoted_def)
    then show ?thesis
      using str_replace_skip [OF q, of c p new] Cons.IH [OF i Cons.prems(2)] by simp
  next
    case False
    then have np: "\<not> prefix (quoted n) (c # p)"
      by (simp add: quoted_def)
    obtain s' where "inert_end_from s' p"
      using Cons.prems(1) False by (cases s) (auto split: if_splits)
    then show ?thesis
      using str_replace_skip [OF q np, of new] Cons.IH [OF _ Cons.prems(2)] by simp
  qed
qed

lemma tokens_inert:
  "inert_from s u \<Longrightarrow>
   quoted_tokens (if s then Some acc else None) (u @ R) = quoted_tokens None R"
proof (induction u arbitrary: s acc)
  case Nil
  then show ?case by simp
next
  case (Cons c u)
  show ?case
  proof (cases s)
    case True
    then have c: "c \<noteq> dq" and i: "inert_from (c \<noteq> newline) u"
      using Cons.prems by simp_all
    show ?thesis
      using True c i Cons.IH [of "c \<noteq> newline" "acc @ [c]"] by (cases "c = newline") simp_all
  next
    case False
    then have i: "inert_from (c = dq) u"
      using Cons.prems by simp
    show ?thesis
      using False i Cons.IH [of "c = dq" "[]"] by (cases "c = dq") simp_all
  qed
qed

lemma tokens_inert_end:
  "inert_end_from s p \<Longrightarrow> quoted_tokens (if s then Some acc else None) p = []"
proof (induction p arbitrary: s acc)
  case Nil
  then show ?case by simp
next
  case (Cons c p)
  show ?case
  proof (cases s)
    case True
    then have c: "c \<noteq> dq" and i: "inert_end_from (c \<noteq> newline) p"
      using Cons.prems by simp_all
    show ?thesis
      using True c i Cons.IH [of "c \<noteq> newline" "acc @ [c]"] by (cases "c = newline") simp_all
  next
    case False
    then have i: "inert_end_from (c = dq) p"
      using Cons.prems by simp
    show ?thesis
      using False i Cons.IH [of "c = dq" "[]"] by (cases "c = dq") simp_all
  qed
qed

lemma in_place_inert:
  "inert_from s u \<Longrightarrow>
   in_place r (if s then Some acc else None) (u @ R) =
     map_sum id (\<lambda>rest. (if s then dq # acc else []) @ u @ rest) (in_place r None R)"
proof (induction u arbitrary: s acc)
  case Nil
  then show ?case by (simp add: sum.map_ident [unfolded id_def] map_sum.identity)
next
  case (Cons c u)
  show ?case
  proof (cases s)
    case True
    then have c: "c \<noteq> dq" and i: "inert_from (c \<noteq> newline) u"
      using Cons.prems by simp_all
    show ?thesis
      using True c i Cons.IH [of "c \<noteq> newline" "acc @ [c]"]
      by (cases "c = newline") (simp_all add: sum.map_comp comp_def)
  next
    case False
    then have i: "inert_from (c = dq) u"
      using Cons.prems by simp
    show ?thesis
      using False i Cons.IH [of "c = dq" "[]"]
      by (cases "c = dq") (simp_all add: sum.map_comp comp_def)
  qed
qed

lemma in_place_inert_end:
  "inert_end_from s p \<Longrightarrow>
   in_place r (if s then Some acc else None) p = Inr ((if s then dq # acc else []) @ p)"
proof (induction p arbitrary: s acc)
  case Nil
  then show ?case by simp
next
  case (Cons c p)
  show ?case
  proof (cases s)
    case True
    then have c: "c \<noteq> dq" and i: "inert_end_from (c \<noteq> newline) p"
      using Cons.prems by simp_all
    show ?thesis
      using True c i Cons.IH [of "c \<noteq> newline" "acc @ [c]"]
      by (cases "c = newline") simp_all
  next
    case False
    then have i: "inert_end_from (c = dq) p"
      using Cons.prems by simp
    show ?thesis
      using False i Cons.IH [of "c = dq" "[]"]
      by (cases "c = dq") simp_all
  qed
qed

lemma inert_append:
  "inert_from s u \<Longrightarrow> inert_from s (u @ v) = inert_from False v"
  by (induction u arbitrary: s) (auto split: if_splits)

lemma inert_end_append:
  "inert_from s u \<Longrightarrow> inert_end_from s (u @ v) = inert_end_from False v"
  by (induction u arbitrary: s) (auto split: if_splits)

lemma inert_candidate_broken:
  "dq \<notin> set b \<Longrightarrow> newline \<notin> set b \<Longrightarrow> inert_from True (b @ [newline])"
  by (induction b) (auto simp add: dq_def newline_def)

lemma inert_end_no_quote:
  "dq \<notin> set b \<Longrightarrow> inert_end_from s b"
  by (induction b arbitrary: s) auto

lemma segments_from_formula:
  "formula_of (fst (segments_from u cand cs)) (snd (segments_from u cand cs)) =
     u @ (case cand of None \<Rightarrow> [] | Some b \<Rightarrow> dq # b) @ cs"
proof (induction cs arbitrary: u cand)
  case Nil
  show ?case by (cases cand) simp_all
next
  case (Cons c cs)
  show ?case
  proof (cases cand)
    case None
    then show ?thesis
      using Cons.IH [of u "Some []"] Cons.IH [of "u @ [c]" None] by simp
  next
    case (Some b)
    then show ?thesis
      using Cons.IH [of "[]" None] Cons.IH [of "u @ dq # b @ [newline]" None]
        Cons.IH [of u "Some (b @ [c])"]
      by (cases "segments_from [] None cs") (simp add: quoted_def)
  qed
qed

lemma segments_from_canonical:
  "inert_from False u \<Longrightarrow> (\<forall>b. cand = Some b \<longrightarrow> dq \<notin> set b \<and> newline \<notin> set b) \<Longrightarrow>
   canonical (fst (segments_from u cand cs)) (snd (segments_from u cand cs))"
proof (induction cs arbitrary: u cand)
  case Nil
  show ?case
  proof (cases cand)
    case None
    then show ?thesis
      using Nil.prems(1) inert_end_append [OF Nil.prems(1), of "[]"] by (simp add: canonical_def)
  next
    case (Some b)
    then have "dq \<notin> set b" using Nil.prems(2) by simp
    then have "inert_end_from True b" by (rule inert_end_no_quote)
    then show ?thesis
      using Some inert_end_append [OF Nil.prems(1), of "dq # b"] by (simp add: canonical_def)
  qed
next
  case (Cons c cs)
  show ?case
  proof (cases cand)
    case None
    show ?thesis
    proof (cases "c = dq")
      case True
      then show ?thesis
        using None Cons.IH [of u "Some []"] Cons.prems(1) by simp
    next
      case False
      then have "inert_from False (u @ [c])"
        using inert_append [OF Cons.prems(1), of "[c]"] by simp
      then show ?thesis
        using None False Cons.IH [of "u @ [c]" None] by simp
    qed
  next
    case (Some b)
    then have b: "dq \<notin> set b" "newline \<notin> set b"
      using Cons.prems(2) by simp_all
    show ?thesis
    proof (cases "c = dq")
      case True
      have "canonical (fst (segments_from [] None cs)) (snd (segments_from [] None cs))"
        using Cons.IH [of "[]" None] by simp
      then show ?thesis
        using Some True b Cons.prems(1)
        by (cases "segments_from [] None cs") (simp add: canonical_def)
    next
      case False
      show ?thesis
      proof (cases "c = newline")
        case True
        have "inert_from False (u @ dq # b @ [newline])"
          using inert_append [OF Cons.prems(1), of "dq # b @ [newline]"]
            inert_candidate_broken [OF b] by simp
        then show ?thesis
          using Some \<open>c \<noteq> dq\<close> True Cons.IH [of "u @ dq # b @ [newline]" None] by simp
      next
        case nl: False
        then show ?thesis
          using Some False b Cons.IH [of u "Some (b @ [c])"] Cons.prems(1) by simp
      qed
    qed
  qed
qed

lemma segments_formula:
  "formula_of (fst (segments f)) (snd (segments f)) = f"
  using segments_from_formula [of "[]" None f] by (simp add: segments_def)

lemma segments_canonical:
  "canonical (fst (segments f)) (snd (segments f))"
  using segments_from_canonical [of "[]" None f] by (simp add: segments_def)

lemma tokens_formula:
  "canonical segs post \<Longrightarrow> finditer_quoted (formula_of segs post) = map (\<lambda>(u, n). quoted n) segs"
proof (induction segs)
  case Nil
  then have "inert_end_from False post" by (simp add: canonical_def)
  then show ?case
    using tokens_inert_end [of False post] by (simp add: finditer_quoted_def)
next
  case (Cons s segs)
  obtain u n where s: "s = (u, n)" by (cases s)
  have c: "inert_from False u" "dq \<notin> set n" "newline \<notin> set n" "canonical segs post"
    using Cons.prems s by (simp_all add: canonical_def)
  have "quoted_tokens None (u @ quoted n @ formula_of segs post) =
      quoted_tokens (Some []) (n @ dq # formula_of segs post)"
    using tokens_inert [OF c(1), of "[]" "quoted n @ formula_of segs post"] by (simp add: quoted_def)
  also have "\<dots> = quoted n # quoted_tokens None (formula_of segs post)"
    using tokens_name [OF c(2,3), of "[]"] by (simp add: quoted_def)
  finally show ?case
    using Cons.IH [OF c(4)] by (simp add: s finditer_quoted_def)
qed

lemma tokens_of_formula:
  "finditer_quoted f = map quoted (token_names f)"
  using tokens_formula [OF segments_canonical, of f]
  by (simp add: segments_formula token_names_def case_prod_beta comp_def)

lemma in_place_formula:
  assumes "canonical segs post"
    and "\<forall>(u, n) \<in> set segs. r n = Inr (col n)"
  shows "in_place r None (formula_of segs post) = Inr (substituted col segs post)"
  using assms
proof (induction segs)
  case Nil
  then have "inert_end_from False post" by (simp add: canonical_def)
  then show ?case
    using in_place_inert_end [of False post r] by simp
next
  case (Cons s segs)
  obtain u n where s: "s = (u, n)" by (cases s)
  have c: "inert_from False u" "dq \<notin> set n" "newline \<notin> set n" "canonical segs post"
    "r n = Inr (col n)"
    using Cons.prems s by (simp_all add: canonical_def)
  have ih: "in_place r None (formula_of segs post) = Inr (substituted col segs post)"
    using Cons.IH [OF c(4)] Cons.prems(2) by simp
  have "in_place r None (u @ quoted n @ formula_of segs post) =
      map_sum id (\<lambda>rest. u @ rest) (in_place r (Some []) (n @ dq # formula_of segs post))"
    using in_place_inert [OF c(1), of r "[]" "quoted n @ formula_of segs post"]
    by (simp add: quoted_def)
  then show ?case
    using in_place_name [OF c(2,3), of r "[]" "formula_of segs post"]
    by (simp add: s c(5) ih)
qed

lemma in_place_error:
  assumes "canonical segs post"
    and "first_error r (map snd segs) = Some e"
  shows "in_place r None (formula_of segs post) = Inl e"
  using assms
proof (induction segs)
  case Nil
  then show ?case by simp
next
  case (Cons s segs)
  obtain u n where s: "s = (u, n)" by (cases s)
  have c: "inert_from False u" "dq \<notin> set n" "newline \<notin> set n" "canonical segs post"
    using Cons.prems s by (simp_all add: canonical_def)
  have start: "in_place r None (u @ quoted n @ formula_of segs post) =
      map_sum id (\<lambda>rest. u @ rest) (in_place r (Some []) (n @ dq # formula_of segs post))"
    using in_place_inert [OF c(1), of r "[]" "quoted n @ formula_of segs post"]
    by (simp add: quoted_def)
  show ?case
  proof (cases "r n")
    case (Inl e')
    then have "e' = e" using Cons.prems(2) s by simp
    then show ?thesis
      using start in_place_name [OF c(2,3), of r "[]" "formula_of segs post"] Inl
      by (simp add: s)
  next
    case (Inr col)
    then have "first_error r (map snd segs) = Some e" using Cons.prems(2) s by simp
    then have "in_place r None (formula_of segs post) = Inl e"
      using Cons.IH [OF c(4)] by simp
    then show ?thesis
      using start in_place_name [OF c(2,3), of r "[]" "formula_of segs post"] Inr
      by (simp add: s)
  qed
qed

lemma loop_replaces:
  assumes "\<forall>n \<in> set ns. dq \<notin> set n \<and> \<not> isl (find_field self None None (Some n))"
  shows "resolve_formula_loop self ql (map quoted ns) s =
         Inr (foldl (\<lambda>s n. str_replace (quoted n) (column_of self ql n) s) s ns)"
  using assms
proof (induction ns arbitrary: s)
  case Nil
  show ?case by simp
next
  case (Cons n ns)
  have n: "dq \<notin> set n" using Cons.prems by simp
  have "\<not> isl (find_field self None None (Some n))" using Cons.prems by simp
  then obtain f where f: "find_field self None None (Some n) = Inr f"
    by (cases "find_field self None None (Some n)") auto
  have col: "column f ql = column_of self ql n"
    by (simp add: column_of_def f)
  have "resolve_formula_loop self ql (map quoted (n # ns)) s =
      resolve_formula_loop self ql (map quoted ns) (str_replace (quoted n) (column_of self ql n) s)"
    by (simp add: unquote [OF n] f col)
  then show ?case
    using Cons.IH [of "str_replace (quoted n) (column_of self ql n) s"] Cons.prems by simp
qed

lemma loop_raises:
  assumes "\<forall>n \<in> set ns. dq \<notin> set n"
    and "first_error (resolved_column self ql) ns = Some e"
  shows "resolve_formula_loop self ql (map quoted ns) s = Inl e"
  using assms
proof (induction ns arbitrary: s)
  case Nil
  then show ?case by simp
next
  case (Cons n ns)
  have n: "dq \<notin> set n" using Cons.prems by simp
  show ?case
  proof (cases "find_field self None None (Some n)")
    case (Inl e')
    then have "resolved_column self ql n = Inl e'" by (simp add: resolved_column_def)
    then have "e' = e" using Cons.prems(2) by simp
    then show ?thesis using Inl by (simp add: unquote [OF n])
  next
    case (Inr f)
    have "resolved_column self ql n = Inr (column f ql)"
      using Inr by (simp add: resolved_column_def)
    then have "first_error (resolved_column self ql) ns = Some e"
      using Cons.prems(2) by simp
    then have "resolve_formula_loop self ql (map quoted ns) (str_replace (quoted n) (column f ql) s) = Inl e"
      using Cons.IH Cons.prems(1) by simp
    then show ?thesis using Inr by (simp add: unquote [OF n])
  qed
qed

lemma replace_segment:
  assumes "inert_from False u" "dq \<notin> set m" "dq \<notin> set n" "newline \<notin> set n" "dq \<notin> set (col m)"
    and "m \<in> D \<or> m = n \<or> \<not> prefix (n @ [dq]) R"
  shows "str_replace (quoted n) (col n) (u @ (if m \<in> D then col m else quoted m) @ R) =
         u @ (if m \<in> insert n D then col m else quoted m) @ str_replace (quoted n) (col n) R"
proof (cases "m \<in> D")
  case True
  then show ?thesis
    using assms(5) by (simp add: str_replace_inert [OF assms(1,4)] str_replace_through)
next
  case False
  show ?thesis
  proof (cases "m = n")
    case True
    have "quoted n \<noteq> []" by (simp add: quoted_def)
    then show ?thesis
      using False True by (simp add: str_replace_inert [OF assms(1,4)] str_replace_match)
  next
    case neq: False
    have q: "quoted n \<noteq> []" by (simp add: quoted_def)
    have a: "\<not> prefix (quoted n) (dq # m @ dq # R)"
      using prefix_name_eq [OF assms(3,2), of R] neq by (auto simp: quoted_def)
    have b: "\<not> prefix (quoted n) (dq # R)"
      using assms(6) False neq by (simp add: quoted_def)
    have "str_replace (quoted n) (col n) (quoted m @ R) =
        dq # str_replace (quoted n) (col n) (m @ dq # R)"
      using str_replace_skip [OF q a] by (simp add: quoted_def)
    also have "\<dots> = dq # m @ str_replace (quoted n) (col n) (dq # R)"
      using assms(2) by (simp add: str_replace_through)
    also have "\<dots> = quoted m @ str_replace (quoted n) (col n) R"
      using str_replace_skip [OF q b] by (simp add: quoted_def)
    finally show ?thesis
      using False neq by (simp add: str_replace_inert [OF assms(1,4)])
  qed
qed

lemma replace_partly:
  assumes "canonical segs post" "dq \<notin> set n" "newline \<notin> set n"
    and "\<forall>(u, m) \<in> set segs. dq \<notin> set (col m)"
    and "no_spurious col D n segs post"
  shows "str_replace (quoted n) (col n) (partly col D segs post) = partly col (insert n D) segs post"
  using assms(1,4,5)
proof (induction segs)
  case Nil
  then have "inert_end_from False post" by (simp add: canonical_def)
  then show ?case
    using str_replace_inert_end [OF _ assms(3), of False post "col n"] by simp
next
  case (Cons s segs)
  obtain u m where s: "s = (u, m)" by (cases s)
  have c: "inert_from False u" "dq \<notin> set m" "canonical segs post" "dq \<notin> set (col m)"
    "m \<in> D \<or> m = n \<or> \<not> prefix (n @ [dq]) (partly col D segs post)"
    "no_spurious col D n segs post"
    using Cons.prems s by (simp_all add: canonical_def)
  have ih: "str_replace (quoted n) (col n) (partly col D segs post) = partly col (insert n D) segs post"
    using Cons.IH [OF c(3) _ c(6)] Cons.prems(2) by simp
  show ?case
    unfolding s partly.simps
    using replace_segment [of u m n col D "partly col D segs post", OF c(1,2) assms(2,3) c(4,5)] ih
    by simp
qed

lemma replaces_partly:
  assumes "canonical segs post"
    and "\<forall>(u, m) \<in> set segs. dq \<notin> set (col m)"
    and "\<forall>n \<in> set ns. dq \<notin> set n \<and> newline \<notin> set n"
    and "in_place_steps col D ns segs post"
  shows "foldl (\<lambda>s n. str_replace (quoted n) (col n) s) (partly col D segs post) ns =
         partly col (set ns \<union> D) segs post"
  using assms(3,4)
proof (induction ns arbitrary: D)
  case Nil
  show ?case by simp
next
  case (Cons n ns)
  have n: "dq \<notin> set n" "newline \<notin> set n" "no_spurious col D n segs post"
    "in_place_steps col (insert n D) ns segs post"
    using Cons.prems by simp_all
  have step: "str_replace (quoted n) (col n) (partly col D segs post) =
      partly col (insert n D) segs post"
    using assms(1) n(1,2) assms(2) n(3) by (rule replace_partly)
  show ?case
    using Cons.IH [OF _ n(4)] Cons.prems(1) by (simp add: step)
qed

lemma canonical_names:
  "canonical (fst (segments f)) (snd (segments f)) \<Longrightarrow> n \<in> set (token_names f) \<Longrightarrow>
   dq \<notin> set n \<and> newline \<notin> set n"
  by (auto simp: canonical_def token_names_def list_all_iff)

text \<open>
  C8 as stated fails: each step of the loop replaces every occurrence of the token's text in
  the formula as rewritten so far.  In \<open>"name" "sample"name"sample"\<close> the unquoted \<open>name\<close>
  between the two \<open>"sample"\<close> tokens is, with the quotes around it, an occurrence of the
  first token; it is replaced, and the two \<open>"sample"\<close> tokens are then no longer found.
\<close>

theorem resolve_formula_not_in_place_counterexample:
  "resolve_formula core_exporter (Some adjacent_formula) None = Inr (Some (''name '' @ [dq] @ ''samplenamesample'' @ [dq]))
   \<and> substituted_in_place core_exporter adjacent_formula None = Inr ''name sample_idnamesample_id''
   \<and> resolve_formula core_exporter (Some adjacent_formula) None \<noteq>
       map_sum id Some (substituted_in_place core_exporter adjacent_formula None)"
  by code_simp

text \<open>
  C8, amended.  Formula resolution finds the double-quoted field-name tokens of the formula
  as it was passed (\<open>token_names\<close>, in order) and, for each in turn, resolves the name via
  \<open>find_field\<close>, takes its column at the given layer (\<open>base\<close>, \<open>middle\<close> or unset) and replaces
  every occurrence of the token's text in the formula as rewritten so far (\<open>str.replace\<close>);
  the first name that does not resolve raises its \<open>FieldNotFound\<close>, as substitution in place
  does.  The formula is its segments (unquoted text, token, ..., text after the last token).
  The result is substitution in place - every token replaced where it stands by its column,
  all other text unchanged - whenever the resolved columns contain no double quote and at
  each step the token's text occurs only where a token stands: no closing quote of a token
  that is not yet replaced and has another name is followed by the step's name and a double
  quote (\<open>in_place_steps\<close>).  A \<open>None\<close> or empty formula resolves to \<open>None\<close>.
\<close>

theorem resolve_formula_substitution:
  assumes "f \<noteq> []"
    and "\<not> given ql \<or> the ql \<in> set [''base'', ''middle'']"
  shows "((\<forall>n \<in> set (token_names f). \<not> isl (find_field self None None (Some n))) \<longrightarrow>
            resolve_formula self (Some f) ql =
              Inr (Some (foldl (\<lambda>s n. str_replace (quoted n) (column_of self ql n) s) f (token_names f))))
       \<and> ((\<forall>n \<in> set (token_names f). \<not> isl (find_field self None None (Some n))
                \<and> dq \<notin> set (column_of self ql n))
            \<and> in_place_steps (column_of self ql) {} (token_names f) (fst (segments f)) (snd (segments f)) \<longrightarrow>
            resolve_formula self (Some f) ql =
              Inr (Some (substituted (column_of self ql) (fst (segments f)) (snd (segments f))))
            \<and> substituted_in_place self f ql =
              Inr (substituted (column_of self ql) (fst (segments f)) (snd (segments f))))
       \<and> (first_error (resolved_column self ql) (token_names f) = Some e \<longrightarrow>
            resolve_formula self (Some f) ql = Inl e \<and> substituted_in_place self f ql = Inl e)
       \<and> formula_of (fst (segments f)) (snd (segments f)) = f
       \<and> canonical (fst (segments f)) (snd (segments f))
       \<and> finditer_quoted f = map quoted (token_names f)
       \<and> resolve_formula self None ql = Inr None
       \<and> resolve_formula self (Some []) ql = Inr None"
proof -
  let ?segs = "fst (segments f)"
  let ?post = "snd (segments f)"
  let ?ns = "token_names f"
  let ?col = "column_of self ql"
  have can: "canonical ?segs ?post" by (rule segments_canonical)
  have fo: "formula_of ?segs ?post = f" by (rule segments_formula)
  have toks: "finditer_quoted f = map quoted ?ns" by (rule tokens_of_formula)
  have names: "\<forall>n \<in> set ?ns. dq \<notin> set n \<and> newline \<notin> set n"
    using canonical_names [OF can] by blast
  have ns: "map snd ?segs = ?ns" by (simp add: token_names_def)
  have mem: "\<And>u m. (u, m) \<in> set ?segs \<Longrightarrow> m \<in> set ?ns"
    by (force simp: token_names_def)
  have unfold: "resolve_formula self (Some f) ql =
      map_sum id Some (resolve_formula_loop self ql (map quoted ?ns) f)"
    using assms by (auto simp: resolve_formula_def given_def toks)
  have r1: "(\<forall>n \<in> set ?ns. \<not> isl (find_field self None None (Some n))) \<longrightarrow>
      resolve_formula self (Some f) ql =
        Inr (Some (foldl (\<lambda>s n. str_replace (quoted n) (?col n) s) f ?ns))"
  proof
    assume a: "\<forall>n \<in> set ?ns. \<not> isl (find_field self None None (Some n))"
    have "\<forall>n \<in> set ?ns. dq \<notin> set n \<and> \<not> isl (find_field self None None (Some n))"
      using names a by simp
    then have "resolve_formula_loop self ql (map quoted ?ns) f =
        Inr (foldl (\<lambda>s n. str_replace (quoted n) (?col n) s) f ?ns)"
      by (rule loop_replaces)
    then show "resolve_formula self (Some f) ql =
        Inr (Some (foldl (\<lambda>s n. str_replace (quoted n) (?col n) s) f ?ns))"
      by (simp add: unfold)
  qed
  have r2: "(\<forall>n \<in> set ?ns. \<not> isl (find_field self None None (Some n)) \<and> dq \<notin> set (?col n))
      \<and> in_place_steps ?col {} ?ns ?segs ?post \<longrightarrow>
      resolve_formula self (Some f) ql = Inr (Some (substituted ?col ?segs ?post))
      \<and> substituted_in_place self f ql = Inr (substituted ?col ?segs ?post)"
  proof
    assume a: "(\<forall>n \<in> set ?ns. \<not> isl (find_field self None None (Some n)) \<and> dq \<notin> set (?col n))
      \<and> in_place_steps ?col {} ?ns ?segs ?post"
    have res: "\<forall>n \<in> set ?ns. dq \<notin> set n \<and> \<not> isl (find_field self None None (Some n))"
      using names a by simp
    have cols: "\<forall>(u, m) \<in> set ?segs. dq \<notin> set (?col m)"
      using a mem by auto
    have steps: "in_place_steps ?col {} ?ns ?segs ?post"
      using a by (rule conjunct2)
    have "foldl (\<lambda>s n. str_replace (quoted n) (?col n) s) (partly ?col {} ?segs ?post) ?ns =
        partly ?col (set ?ns \<union> {}) ?segs ?post"
      using can cols names steps by (rule replaces_partly)
    moreover have "partly ?col (set ?ns \<union> {}) ?segs ?post = substituted ?col ?segs ?post"
      by (rule partly_all) (simp add: token_names_def)
    ultimately have fold: "foldl (\<lambda>s n. str_replace (quoted n) (?col n) s) f ?ns =
        substituted ?col ?segs ?post"
      by (simp add: partly_empty fo)
    have "resolve_formula_loop self ql (map quoted ?ns) f =
        Inr (foldl (\<lambda>s n. str_replace (quoted n) (?col n) s) f ?ns)"
      using res by (rule loop_replaces)
    then have one: "resolve_formula self (Some f) ql = Inr (Some (substituted ?col ?segs ?post))"
      by (simp add: unfold fold)
    have rc: "\<forall>(u, n) \<in> set ?segs. resolved_column self ql n = Inr (?col n)"
    proof -
      have "\<And>n. \<not> isl (find_field self None None (Some n)) \<Longrightarrow>
          resolved_column self ql n = Inr (?col n)"
        by (case_tac "find_field self None None (Some n)")
          (simp_all add: resolved_column_def column_of_def)
      then show ?thesis using a mem by auto
    qed
    have "in_place (resolved_column self ql) None (formula_of ?segs ?post) =
        Inr (substituted ?col ?segs ?post)"
      using can rc by (rule in_place_formula)
    then have two: "substituted_in_place self f ql = Inr (substituted ?col ?segs ?post)"
      by (simp add: substituted_in_place_def fo)
    show "resolve_formula self (Some f) ql = Inr (Some (substituted ?col ?segs ?post))
      \<and> substituted_in_place self f ql = Inr (substituted ?col ?segs ?post)"
      using one two by (rule conjI)
  qed
  have r3: "first_error (resolved_column self ql) ?ns = Some e \<longrightarrow>
      resolve_formula self (Some f) ql = Inl e \<and> substituted_in_place self f ql = Inl e"
  proof
    assume a: "first_error (resolved_column self ql) ?ns = Some e"
    have "\<forall>n \<in> set ?ns. dq \<notin> set n" using names by simp
    then have "resolve_formula_loop self ql (map quoted ?ns) f = Inl e"
      using a by (rule loop_raises)
    then have one: "resolve_formula self (Some f) ql = Inl e"
      by (simp add: unfold)
    have "first_error (resolved_column self ql) (map snd ?segs) = Some e"
      using a by (simp add: ns)
    then have "in_place (resolved_column self ql) None (formula_of ?segs ?post) = Inl e"
      by (rule in_place_error [OF can])
    then have two: "substituted_in_place self f ql = Inl e"
      by (simp add: substituted_in_place_def fo)
    show "resolve_formula self (Some f) ql = Inl e \<and> substituted_in_place self f ql = Inl e"
      using one two by (rule conjI)
  qed
  have r4: "resolve_formula self None ql = Inr None"
    by (simp add: resolve_formula_def given_def)
  have r5: "resolve_formula self (Some []) ql = Inr None"
    by (simp add: resolve_formula_def given_def)
  show ?thesis
    by (intro conjI r1 r2 r3 fo can toks r4 r5)
qed

lemma two_token_base:
  "two_token_formula \<noteq> []"
  "\<not> given (Some ''base'') \<or> the (Some ''base'') \<in> set [''base'', ''middle'']"
  "(\<forall>n \<in> set (token_names two_token_formula).
       \<not> isl (find_field core_exporter None None (Some n))
       \<and> dq \<notin> set (column_of core_exporter (Some ''base'') n))
   \<and> in_place_steps (column_of core_exporter (Some ''base'')) {} (token_names two_token_formula)
       (fst (segments two_token_formula)) (snd (segments two_token_formula))"
  "substituted (column_of core_exporter (Some ''base'')) (fst (segments two_token_formula))
     (snd (segments two_token_formula)) = ''f(core_sample.name, core_subject.sample_id)''"
  by code_simp+

lemma two_token_middle:
  "\<not> given (Some ''middle'') \<or> the (Some ''middle'') \<in> set [''base'', ''middle'']"
  "(\<forall>n \<in> set (token_names two_token_formula).
       \<not> isl (find_field core_exporter None None (Some n))
       \<and> dq \<notin> set (column_of core_exporter (Some ''middle'') n))
   \<and> in_place_steps (column_of core_exporter (Some ''middle'')) {} (token_names two_token_formula)
       (fst (segments two_token_formula)) (snd (segments two_token_formula))"
  "substituted (column_of core_exporter (Some ''middle'')) (fst (segments two_token_formula))
     (snd (segments two_token_formula)) = ''f(core_sample_name, core_subject_sample_id)''"
  by code_simp+

lemma touching_unset:
  "touching_formula \<noteq> []"
  "\<not> given None \<or> the None \<in> set [''base'', ''middle'']"
  "(\<forall>n \<in> set (token_names touching_formula).
       \<not> isl (find_field core_exporter None None (Some n))
       \<and> dq \<notin> set (column_of core_exporter None n))
   \<and> in_place_steps (column_of core_exporter None) {} (token_names touching_formula)
       (fst (segments touching_formula)) (snd (segments touching_formula))"
  "substituted (column_of core_exporter None) (fst (segments touching_formula))
     (snd (segments touching_formula)) = ''namesample_id''"
  by code_simp+

lemma stray_quote_unset:
  "stray_quote_formula \<noteq> []"
  "(\<forall>n \<in> set (token_names stray_quote_formula).
       \<not> isl (find_field core_exporter None None (Some n))
       \<and> dq \<notin> set (column_of core_exporter None n))
   \<and> in_place_steps (column_of core_exporter None) {} (token_names stray_quote_formula)
       (fst (segments stray_quote_formula)) (snd (segments stray_quote_formula))"
  "substituted (column_of core_exporter None) (fst (segments stray_quote_formula))
     (snd (segments stray_quote_formula)) = ''name x'' @ [dq]"
  by code_simp+

lemma unknown_name_base:
  "unknown_name_formula \<noteq> []"
  "first_error (resolved_column core_exporter (Some ''base'')) (token_names unknown_name_formula) =
     Some (FieldNotFound NotInExporter)"
  by code_simp+

lemma adjacent_steps:
  "\<not> in_place_steps (column_of core_exporter None) {} (token_names adjacent_formula)
       (fst (segments adjacent_formula)) (snd (segments adjacent_formula))"
  by code_simp

theorem resolve_formula_substitution_witness:
  "two_token_formula \<noteq> []
   \<and> ''base'' \<in> set [''base'', ''middle'']
   \<and> list_all (\<lambda>n. \<not> isl (find_field core_exporter None None (Some n))
         \<and> dq \<notin> set (column_of core_exporter (Some ''base'') n)) (token_names two_token_formula)
   \<and> in_place_steps (column_of core_exporter (Some ''base'')) {} (token_names two_token_formula)
       (fst (segments two_token_formula)) (snd (segments two_token_formula))
   \<and> resolve_formula core_exporter (Some two_token_formula) (Some ''base'') =
       Inr (Some ''f(core_sample.name, core_subject.sample_id)'')
   \<and> substituted_in_place core_exporter two_token_formula (Some ''base'') =
       Inr ''f(core_sample.name, core_subject.sample_id)''
   \<and> resolve_formula core_exporter (Some two_token_formula) (Some ''middle'') =
       Inr (Some ''f(core_sample_name, core_subject_sample_id)'')
   \<and> in_place_steps (column_of core_exporter None) {} (token_names touching_formula)
       (fst (segments touching_formula)) (snd (segments touching_formula))
   \<and> resolve_formula core_exporter (Some touching_formula) None = Inr (Some ''namesample_id'')
   \<and> in_place_steps (column_of core_exporter None) {} (token_names stray_quote_formula)
       (fst (segments stray_quote_formula)) (snd (segments stray_quote_formula))
   \<and> resolve_formula core_exporter (Some stray_quote_formula) None = Inr (Some (''name x'' @ [dq]))
   \<and> first_error (resolved_column core_exporter (Some ''base'')) (token_names unknown_name_formula) =
       Some (FieldNotFound NotInExporter)
   \<and> resolve_formula core_exporter (Some unknown_name_formula) (Some ''base'') =
       Inl (FieldNotFound NotInExporter)
   \<and> substituted_in_place core_exporter unknown_name_formula (Some ''base'') =
       Inl (FieldNotFound NotInExporter)"
proof -
  note base = resolve_formula_substitution [where f = two_token_formula and ql = "Some ''base''"
      and self = core_exporter, OF two_token_base(1,2)]
  note middle = resolve_formula_substitution [where f = two_token_formula and ql = "Some ''middle''"
      and self = core_exporter, OF two_token_base(1) two_token_middle(1)]
  note touching = resolve_formula_substitution [where f = touching_formula and ql = None
      and self = core_exporter, OF touching_unset(1,2)]
  note stray = resolve_formula_substitution [where f = stray_quote_formula and ql = None
      and self = core_exporter, OF stray_quote_unset(1) touching_unset(2)]
  note unknown = resolve_formula_substitution [where f = unknown_name_formula
      and ql = "Some ''base''" and self = core_exporter
      and e = "FieldNotFound NotInExporter", OF unknown_name_base(1) two_token_base(2)]
  have w1: "''base'' \<in> set [''base'', ''middle'']" by simp
  have w2: "list_all (\<lambda>n. \<not> isl (find_field core_exporter None None (Some n))
         \<and> dq \<notin> set (column_of core_exporter (Some ''base'') n)) (token_names two_token_formula)"
    using two_token_base(3) [THEN conjunct1] by (simp add: list_all_iff)
  have w3: "in_place_steps (column_of core_exporter (Some ''base'')) {} (token_names two_token_formula)
       (fst (segments two_token_formula)) (snd (segments two_token_formula))"
    using two_token_base(3) by (rule conjunct2)
  have b: "resolve_formula core_exporter (Some two_token_formula) (Some ''base'') =
       Inr (Some ''f(core_sample.name, core_subject.sample_id)'')
     \<and> substituted_in_place core_exporter two_token_formula (Some ''base'') =
       Inr ''f(core_sample.name, core_subject.sample_id)''"
    using mp [OF base [THEN conjunct2, THEN conjunct1] two_token_base(3)]
    unfolding two_token_base(4) .
  have m: "resolve_formula core_exporter (Some two_token_formula) (Some ''middle'') =
       Inr (Some ''f(core_sample_name, core_subject_sample_id)'')"
    using mp [OF middle [THEN conjunct2, THEN conjunct1] two_token_middle(2), THEN conjunct1]
    unfolding two_token_middle(3) .
  have t: "resolve_formula core_exporter (Some touching_formula) None = Inr (Some ''namesample_id'')"
    using mp [OF touching [THEN conjunct2, THEN conjunct1] touching_unset(3), THEN conjunct1]
    unfolding touching_unset(4) .
  have s: "resolve_formula core_exporter (Some stray_quote_formula) None =
      Inr (Some (''name x'' @ [dq]))"
    using mp [OF stray [THEN conjunct2, THEN conjunct1] stray_quote_unset(2), THEN conjunct1]
    unfolding stray_quote_unset(3) .
  have u: "resolve_formula core_exporter (Some unknown_name_formula) (Some ''base'') =
       Inl (FieldNotFound NotInExporter)
     \<and> substituted_in_place core_exporter unknown_name_formula (Some ''base'') =
       Inl (FieldNotFound NotInExporter)"
    using unknown [THEN conjunct2, THEN conjunct2, THEN conjunct1] unknown_name_base(2)
    by (rule mp)
  show ?thesis
    by (intro conjI two_token_base(1) w1 w2 w3 b [THEN conjunct1] b [THEN conjunct2] m
        touching_unset(3) [THEN conjunct2] t stray_quote_unset(2) [THEN conjunct2] s
        unknown_name_base(2) u [THEN conjunct1] u [THEN conjunct2])
qed

section \<open>The execution lock\<close>

lemma fresh_query_entered:
  "fst (cursor_enter compiles executes (cursor fresh_query)) =
     fresh_query\<lparr>q_cursor := True, is_executing := Some True\<rparr>"
  "snd (cursor_enter compiles executes (cursor fresh_query)) = None"
  by (simp_all add: cursor_enter_def cursor_def compiles_def executes_def)

text \<open>
  C6 at a concrete input: a fresh query whose cursor has been opened without an error
  (\<open>with query.cursor():\<close> has entered its body).  \<open>__enter__\<close> assigned \<open>is_executing\<close>,
  \<open>is_update_safe\<close> reads \<open>_is_executing\<close>, which is still \<open>False\<close>: the check passes and
  every setter succeeds instead of raising \<open>QueryExecuting\<close>.
\<close>

theorem open_cursor_does_not_lock:
  "snd (cursor_enter compiles executes (cursor fresh_query)) = None
   \<and> is_executing (fst (cursor_enter compiles executes (cursor fresh_query))) = Some True
   \<and> underscore_is_executing (fst (cursor_enter compiles executes (cursor fresh_query))) = False
   \<and> is_update_safe (fst (cursor_enter compiles executes (cursor fresh_query))) = Inr True
   \<and> set_exporter (fst (cursor_enter compiles executes (cursor fresh_query))) core_exporter \<noteq> Inl QueryExecuting
   \<and> set_where_before_join (fst (cursor_enter compiles executes (cursor fresh_query))) None \<noteq> Inl QueryExecuting
   \<and> set_limit (fst (cursor_enter compiles executes (cursor fresh_query))) (PInt 5) =
        Inr (fresh_query\<lparr>q_limit := PInt 5, q_cursor := True, is_executing := Some True\<rparr>)
   \<and> set_count (fst (cursor_enter compiles executes (cursor fresh_query))) (PStr ''id'') \<noteq> Inl QueryExecuting
   \<and> set_group_by (fst (cursor_enter compiles executes (cursor fresh_query))) (PStr ''id'') \<noteq> Inl QueryExecuting
   \<and> set_where (fst (cursor_enter compiles executes (cursor fresh_query))) PNone \<noteq> Inl QueryExecuting
   \<and> set_extra_field (fst (cursor_enter compiles executes (cursor fresh_query))) PNone \<noteq> Inl QueryExecuting
   \<and> set_order_by (fst (cursor_enter compiles executes (cursor fresh_query))) (PStr ''id'') \<noteq> Inl QueryExecuting"
  unfolding fresh_query_entered
  by (simp add: fresh_query_def new_query_def is_update_safe_def set_exporter_def
      set_where_before_join_def set_limit_def set_count_def set_group_by_def set_where_def
      set_extra_field_def set_order_by_def)

section \<open>Literal extra columns\<close>

text \<open>
  C7 at a concrete input: the declaration \<open>{"value": "abc"}\<close>.  The code returns the text
  of its own source literal, \<open>'{column['value']}'\<close>, not the value in single quotes.
\<close>

theorem string_literal_not_inlined:
  "resolve_extra_field nothing_computed [(''value'', PStr ''abc'')] =
     Inr (PStr ([sq] @ ''{column['' @ [sq] @ ''value'' @ [sq] @ '']}'' @ [sq]), PList [])
   \<and> resolve_extra_field nothing_computed [(''value'', PStr ''abc'')] \<noteq>
       Inr (PStr ([sq] @ ''abc'' @ [sq]), PList [])
   \<and> resolve_extra_field nothing_computed [(''value'', PNone)] = Inr (PStr ''Null'', PList [])
   \<and> resolve_extra_field nothing_computed [(''value'', PInt 7)] = Inr (PInt 7, PList [])"
  by (simp add: resolve_extra_field_def value_literal_text_def sq_def)

section \<open>Constructing a rollup\<close>

text \<open>
  C9 at a concrete input: a rollup declared on the dataset \<open>Missing\<close>, which is not in the
  registry.  The constructor fails with the \<open>KeyError\<close> of the dictionary subscript, not with
  \<open>MLExportWizardExporterNotFound\<close>.
\<close>

theorem rollup_of_unknown_exporter:
  "registry ''Missing'' = None
   \<and> rollup_init registry core_exporter ''by_subject'' (Some ''Missing'') no_settings = Inl KeyError
   \<and> rollup_init registry core_exporter ''by_subject'' (Some ''Missing'') no_settings \<noteq> Inl ExporterNotFound"
  by (simp add: rollup_init_def registry_def)

section \<open>Where clauses\<close>

lemma resolve_where_falsy:
  "\<not> truthy operator \<or> field = None \<or> \<not> truthy val \<Longrightarrow>
   resolve_where operator field val query_layer = (None, None)"
  by (simp add: resolve_where_def)

lemma zero_filter_loop:
  "where_before_join_loop subject_model [[(''field'', PStr ''id''), (''value'', PInt 0)]]
     (Some [], empty_sql_dict) = Inl TypeError"
  by (simp add: dict_get_def by_name_def subject_model_def resolve_where_def)

text \<open>
  C10 at a concrete input: a pre-join filter \<open>{"field": "id", "value": 0}\<close> on the primary
  model.  \<open>_resolve_where\<close> returns \<open>(None, None)\<close>, and the caller in
  \<open>ExporterModel._sql_dict\<close> unions the \<open>None\<close> into the parameters: the compilation raises
  \<open>TypeError\<close>, the predicate is not silently omitted.
\<close>

theorem falsy_pre_join_value_raises:
  "resolve_where (PStr ''='') (Some (ExporterField ''id'' ''core_subject'' False (plain ''id'')))
     (PInt 0) None = (None, None)
   \<and> app_sql_dict 3 core_app zero_filter_query None no_state = Some (Inl TypeError)"
proof -
  have p: "by_name m_name (a_models core_app) (the (a_primary_model core_app)) = Some subject_model"
    by (simp add: by_name_def core_app_def subject_model_def sample_model_def)
  have n: "m_name subject_model = ''Subject''"
    by (simp add: subject_model_def)
  have t: "model_table_and_from subject_model zero_filter_query False None None = Inl TypeError"
    by (simp add: model_table_and_from_def zero_filter_query_def new_query_def n zero_filter_loop
        del: where_before_join_loop.simps)
  have g: "given (a_primary_model core_app)"
    by (simp add: given_def core_app_def)
  have "app_sql_dict 3 core_app zero_filter_query None no_state = Some (Inl TypeError)"
    by (simp add: app_sql_dict_def g p numeral_3_eq_3 t)
  then show ?thesis
    by (simp add: resolve_where_def)
qed

theorem falsy_pre_join_value_raises_witness:
  "\<not> truthy (PInt 0)
   \<and> app_sql_dict 3 core_app zero_filter_query None no_state = Some (Inl TypeError)"
  using falsy_pre_join_value_raises [THEN conjunct2] by simp

section \<open>The join traversal\<close>

lemma by_name_Some:
  "by_name nm xs n = Some x \<Longrightarrow> x \<in> set xs \<and> nm x = n"
proof -
  have "find P ys = Some x \<Longrightarrow> x \<in> set ys \<and> P x" for P and ys :: "'a list"
    by (induction ys) (auto split: if_splits)
  from this [of "\<lambda>x. nm x = n" "rev xs"] show "by_name nm xs n = Some x \<Longrightarrow> x \<in> set xs \<and> nm x = n"
    by (simp add: by_name_def)
qed

lemma pass_ok_mono:
  "pass_ok st' r \<Longrightarrow> prepped_models st \<subseteq> prepped_models st' \<Longrightarrow> pass_ok st r"
  by (auto simp: pass_ok_def split: option.splits sum.splits)

lemma card_remaining_mono:
  "finite M \<Longrightarrow> P \<subseteq> P' \<Longrightarrow> card (M - P') \<le> card (M - P)"
  by (rule card_mono) auto

lemma join_related_ok:
  assumes IH: "\<And>self' st lj jm ju. pass_inv st \<Longrightarrow> m_name self' \<in> model_names parent \<Longrightarrow>
      m_name self' \<notin> prepped_models st \<Longrightarrow> card (model_names parent - prepped_models st) < fuel \<Longrightarrow>
      pass_ok st (model_sql_dict fuel parent q ql self' lj jm ju st)"
    and "pass_inv st" and "card (model_names parent - prepped_models st) < fuel"
  shows "pass_ok st (join_related fuel parent q ql self flds sd st)"
  using assms(2,3)
proof (induction flds arbitrary: sd st)
  case Nil
  then show ?case by (simp add: pass_ok_def)
next
  case (Cons field rest)
  have fin: "finite (model_names parent)" by (simp add: model_names_def)
  show ?case
  proof (cases "is_relationship field")
    case False
    then show ?thesis using Cons by simp
  next
    case True
    show ?thesis
    proof (cases "by_name m_name (a_models parent) (related_model_name field)")
      case None
      then show ?thesis using True Cons by simp
    next
      case (Some jm)
      show ?thesis
      proof (cases "m_name jm \<in> prepped_models st \<or> suppressed self jm")
        case True
        then show ?thesis using \<open>is_relationship field\<close> Some Cons by simp
      next
        case False
        have jmM: "m_name jm \<in> model_names parent"
          using by_name_Some [OF Some, THEN conjunct1] by (simp add: model_names_def)
        have call: "pass_ok st (model_sql_dict fuel parent q ql jm True (Some self) (Some (column field None)) st)"
          using IH [OF Cons.prems(1) jmM _ Cons.prems(2)] False by simp
        show ?thesis
        proof (cases "model_sql_dict fuel parent q ql jm True (Some self) (Some (column field None)) st")
          case None
          then show ?thesis using call by (simp add: pass_ok_def)
        next
          case (Some r)
          note r = Some
          show ?thesis
          proof (cases r)
            case (Inl e)
            then show ?thesis
              using \<open>is_relationship field\<close> \<open>by_name m_name (a_models parent) (related_model_name field) = Some jm\<close> False r
              by (simp add: pass_ok_def)
          next
            case (Inr p)
            obtain jd st' where p: "p = (jd, st')" by (cases p)
            have inv': "pass_inv st'" and sub: "prepped_models st \<subseteq> prepped_models st'"
              using call r Inr p by (simp_all add: pass_ok_def)
            have card': "card (model_names parent - prepped_models st') < fuel"
              using card_remaining_mono [OF fin sub] Cons.prems(2) by simp
            have "pass_ok st' (join_related fuel parent q ql self rest (merge_sql_dicts sd jd) st')"
              using Cons.IH [OF inv' card'] .
            then have "pass_ok st (join_related fuel parent q ql self rest (merge_sql_dicts sd jd) st')"
              using sub by (rule pass_ok_mono)
            then show ?thesis
              using \<open>is_relationship field\<close> \<open>by_name m_name (a_models parent) (related_model_name field) = Some jm\<close> False r Inr p
              by simp
          qed
        qed
      qed
    qed
  qed
qed

lemma model_sql_dict_ok:
  "pass_inv st \<Longrightarrow> m_name self \<in> model_names parent \<Longrightarrow> m_name self \<notin> prepped_models st \<Longrightarrow>
   card (model_names parent - prepped_models st) < fuel \<Longrightarrow>
   pass_ok st (model_sql_dict fuel parent q ql self lj jm ju st)
   \<and> (\<forall>sd st'. model_sql_dict fuel parent q ql self lj jm ju st = Some (Inr (sd, st')) \<longrightarrow>
          m_name self \<in> prepped_models st')"
proof (induction fuel arbitrary: self st lj jm ju)
  case 0
  then show ?case by simp
next
  case (Suc fuel)
  have fin: "finite (model_names parent)" by (simp add: model_names_def)
  show ?case
  proof (cases "model_table_and_from self q lj jm ju")
    case (Inl e)
    then show ?thesis by (simp add: pass_ok_def)
  next
    case (Inr sd)
    let ?st = "st\<lparr>prepped_models := insert (m_name self) (prepped_models st),
                joined := joined st @ [m_name self]\<rparr>"
    let ?r = "join_related fuel parent q ql self (m_fields self)
            (merge_fields (m_fields self) None ql (Some sd)) ?st"
    have inv: "pass_inv ?st"
      using Suc.prems(1,3) by (auto simp: pass_inv_def)
    have eq: "model_names parent - prepped_models ?st = (model_names parent - prepped_models st) - {m_name self}"
      by auto
    have mem: "m_name self \<in> model_names parent - prepped_models st"
      using Suc.prems(2,3) by simp
    have "card ((model_names parent - prepped_models st) - {m_name self})
        < card (model_names parent - prepped_models st)"
      using fin mem by (intro card_Diff1_less) auto
    then have "card (model_names parent - prepped_models ?st) < card (model_names parent - prepped_models st)"
      unfolding eq .
    then have card: "card (model_names parent - prepped_models ?st) < fuel"
      using Suc.prems(4) by simp
    have ok: "pass_ok ?st ?r"
      using Suc.IH [THEN conjunct1] inv card by (rule join_related_ok)
    then have ok': "pass_ok st ?r"
      by (rule pass_ok_mono) auto
    have "\<forall>sd' st'. ?r = Some (Inr (sd', st')) \<longrightarrow> m_name self \<in> prepped_models st'"
      using ok by (auto simp: pass_ok_def)
    then show ?thesis
      using Inr ok' by simp
  qed
qed

lemma card_model_names: "card (model_names parent) \<le> length (a_models parent)"
  unfolding model_names_def
  by (metis card_image_le card_length le_trans List.finite_set)

lemma suppressed_sym: "suppressed a b = suppressed b a"
  by (auto simp: suppressed_def)

lemma reset_state:
  "(st :: compile_state)\<lparr>prepped_models := {}, joined := []\<rparr> = \<lparr>prepped_models = {}, joined = []\<rparr>"
  by (cases st) simp

text \<open>
  C5.  One call of \<open>ExporterApp._sql_dict\<close> returns (with fuel above the number of the
  app's models the model does not run out of fuel), and in the state it returns no model
  was joined twice: the log of the calls of \<open>ExporterModel._sql_dict\<close> has no duplicate, and
  \<open>prepped_models\<close> holds exactly the logged models, the primary model among them.  The
  pass does not depend on the \<open>prepped_models\<close> it finds: the set is reset at the start.
  The join loop skips a relationship field whose target model is already in the set,
  or is named in this model's \<open>dont_link_to\<close>, or names this model in its own.
\<close>

theorem every_model_joined_at_most_once:
  "(\<exists>r. app_sql_dict (Suc (length (a_models self))) self query ql st = Some r
       \<and> (\<forall>sd st'. r = Inr (sd, st') \<longrightarrow>
             distinct (joined st') \<and> set (joined st') = prepped_models st'
             \<and> the (a_primary_model self) \<in> prepped_models st'))
   \<and> app_sql_dict fuel self query ql st =
       app_sql_dict fuel self query ql \<lparr>prepped_models = {}, joined = []\<rparr>
   \<and> (is_relationship field
        \<and> by_name m_name (a_models self) (related_model_name field) = Some join_model
        \<and> (m_name join_model \<in> prepped_models st2
             \<or> (\<exists>names. m_dont_link_to m = Some names \<and> m_name join_model \<in> set names)
             \<or> (\<exists>names. m_dont_link_to join_model = Some names \<and> m_name m \<in> set names))
      \<longrightarrow> join_related fuel self query ql m (field # rest) sql_dict st2 =
           join_related fuel self query ql m rest sql_dict st2)"
proof -
  let ?f = "Suc (length (a_models self))"
  let ?st0 = "\<lparr>prepped_models = {}, joined = []\<rparr>"
  have reset: "app_sql_dict fuel self query ql st = app_sql_dict fuel self query ql ?st0"
    by (simp add: app_sql_dict_def reset_state split: option.splits)
  have skip: "is_relationship field
        \<and> by_name m_name (a_models self) (related_model_name field) = Some join_model
        \<and> (m_name join_model \<in> prepped_models st2
             \<or> (\<exists>names. m_dont_link_to m = Some names \<and> m_name join_model \<in> set names)
             \<or> (\<exists>names. m_dont_link_to join_model = Some names \<and> m_name m \<in> set names))
      \<longrightarrow> join_related fuel self query ql m (field # rest) sql_dict st2 =
           join_related fuel self query ql m rest sql_dict st2"
    by (auto simp: suppressed_def)
  have run: "\<exists>r. app_sql_dict ?f self query ql st = Some r
       \<and> (\<forall>sd st'. r = Inr (sd, st') \<longrightarrow>
             distinct (joined st') \<and> set (joined st') = prepped_models st'
             \<and> the (a_primary_model self) \<in> prepped_models st')"
  proof (cases "given (a_primary_model self)")
    case False
    then show ?thesis by (simp add: app_sql_dict_def)
  next
    case True
    show ?thesis
    proof (cases "by_name m_name (a_models self) (the (a_primary_model self))")
      case None
      then show ?thesis using True by (simp add: app_sql_dict_def)
    next
      case (Some primary)
      have nm: "m_name primary = the (a_primary_model self)" and mem: "primary \<in> set (a_models self)"
        using by_name_Some [OF Some] by simp_all
      have inv: "pass_inv ?st0" by (simp add: pass_inv_def)
      have inM: "m_name primary \<in> model_names self"
        using mem by (simp add: model_names_def)
      have notin: "m_name primary \<notin> prepped_models ?st0" by simp
      have card: "card (model_names self - prepped_models ?st0) < ?f"
        using card_model_names [of self] by simp
      note ok = model_sql_dict_ok [OF inv inM notin card, of query ql False None None]
      have eq: "app_sql_dict ?f self query ql st =
          model_sql_dict ?f self query ql primary False None None ?st0"
        using True Some by (simp add: app_sql_dict_def reset_state)
      show ?thesis
        unfolding eq using ok nm
        by (auto simp: pass_ok_def pass_inv_def split: option.splits sum.splits)
    qed
  qed
  show ?thesis
    using run reset skip by blast
qed

lemma core_pass:
  "map_option (map_sum id (\<lambda>(sd, st'). (joined st', prepped_models st')))
     (app_sql_dict 3 core_app fresh_query None no_state) =
   Some (Inr ([''Subject'', ''Sample''], {''Subject'', ''Sample''}))"
  by code_simp

lemma core_link:
  "is_relationship sample_subject_link"
  "by_name m_name (a_models core_app) (related_model_name sample_subject_link) = Some subject_model"
  "m_name subject_model \<in> prepped_models visited_subject"
  by (simp_all add: is_relationship_def sample_subject_link_def related_model_name_def by_name_def
      core_app_def subject_model_def sample_model_def visited_subject_def)

theorem every_model_joined_at_most_once_witness:
  "(\<exists>r. app_sql_dict 3 core_app fresh_query None no_state = Some r)
   \<and> map_option (map_sum id (\<lambda>(sd, st'). (joined st', prepped_models st')))
        (app_sql_dict 3 core_app fresh_query None no_state) =
      Some (Inr ([''Subject'', ''Sample''], {''Subject'', ''Sample''}))
   \<and> distinct [''Subject'', ''Sample'']
   \<and> is_relationship sample_subject_link
   \<and> by_name m_name (a_models core_app) (related_model_name sample_subject_link) = Some subject_model
   \<and> m_name subject_model \<in> prepped_models visited_subject
   \<and> join_related 1 core_app fresh_query None sample_model [sample_subject_link] None visited_subject =
       Some (Inr (None, visited_subject))"
proof -
  note t = every_model_joined_at_most_once [of core_app fresh_query None no_state 1
      sample_subject_link subject_model visited_subject sample_model "[]" None]
  have len: "Suc (length (a_models core_app)) = 3"
    by (simp add: core_app_def)
  have run: "\<exists>r. app_sql_dict 3 core_app fresh_query None no_state = Some r"
    using t [THEN conjunct1] unfolding len by blast
  have "join_related 1 core_app fresh_query None sample_model [sample_subject_link] None visited_subject =
      join_related 1 core_app fresh_query None sample_model [] None visited_subject"
    using t [THEN conjunct2, THEN conjunct2] core_link by blast
  then have skip: "join_related 1 core_app fresh_query None sample_model [sample_subject_link] None visited_subject =
       Some (Inr (None, visited_subject))"
    by simp
  show ?thesis
    using run core_pass core_link skip by simp
qed

section \<open>Compiling a rollup\<close>









end
